theory Spec2Isabelle
  imports Main "HOL-Library.Word" "HOL-Library.Sublist"
begin

unbundle bit_operations_syntax

section \<open>Bytes, C strings and GLib error codes\<close>

text \<open>
  A byte (\<open>char\<close>, \<open>guchar\<close>) is a \<^typ>\<open>char\<close>; a byte sequence of known length
  (\<open>content\<close> with \<open>content_len\<close>, \<open>sig\<close> with \<open>sig_size\<close>) is a list of them and the
  length argument is the length of the list.

  A NUL-terminated C string (\<open>const char *\<close>) is given by the bytes stored from the
  pointer on: the string ends at the first NUL of the list, and the end of the list
  stands for the terminator when the list holds no NUL. So \<open>cur s\<close> is \<open>*s\<close>,
  \<open>tl s\<close> is \<open>s + 1\<close> (only ever taken when \<open>*s\<close> is not NUL) and \<open>cstr s\<close>
  is the text of the string.
\<close>

type_synonym byte = char

abbreviation NUL :: byte where
  "NUL \<equiv> CHR 0x00"

definition cur :: "byte list \<Rightarrow> byte" where
  "cur s = (case s of [] \<Rightarrow> NUL | c # _ \<Rightarrow> c)"

definition cstr :: "byte list \<Rightarrow> byte list" where
  "cstr s = takeWhile (\<lambda>c. c \<noteq> NUL) s"

definition strlen :: "byte list \<Rightarrow> nat" where
  "strlen s = length (cstr s)"

text \<open>
  The error codes of GLib's \<open>G_FILE_ERROR\<close> domain that the program sets or tests;
  \<open>G_FILE_ERROR_errno n\<close> is the code \<open>g_file_error_from_errno\<close> gives for any other
  errno \<open>n\<close>. Messages are not modelled.
\<close>

datatype g_file_error =
    G_FILE_ERROR_NOENT
  | G_FILE_ERROR_ISDIR
  | G_FILE_ERROR_INVAL
  | G_FILE_ERROR_FAILED
  | G_FILE_ERROR_errno nat

text \<open>
  The file type bits of \<open>st_mode\<close>, with the values of the Linux headers.
\<close>

definition S_IFMT :: "32 word" where "S_IFMT = 0xF000"
definition S_IFREG :: "32 word" where "S_IFREG = 0x8000"
definition S_IFLNK :: "32 word" where "S_IFLNK = 0xA000"
definition S_IFDIR :: "32 word" where "S_IFDIR = 0x4000"

section \<open>The blob that is signed (utils.c, \<open>make_sign_blob\<close>)\<close>

text \<open>
  A buffer from \<open>g_malloc\<close> is a list of cells; a cell is \<open>None\<close> until it is written.
  \<open>poke buf dst b\<close> is \<open>*dst = b\<close> and \<open>memcpy buf dst src n\<close> copies the first \<open>n\<close>
  bytes of \<open>src\<close> to offset \<open>dst\<close>. A write that does not fit the buffer is undefined
  behaviour in C; here it leaves the buffer with the wrong length or content, so that no
  result below could be proved if one happened.
\<close>

type_synonym buffer = "byte option list"

definition g_malloc :: "nat \<Rightarrow> buffer" where
  "g_malloc n = replicate n None"

definition poke :: "buffer \<Rightarrow> nat \<Rightarrow> byte \<Rightarrow> buffer" where
  "poke buf dst b = buf[dst := Some b]"

definition memcpy :: "buffer \<Rightarrow> nat \<Rightarrow> byte list \<Rightarrow> nat \<Rightarrow> buffer" where
  "memcpy buf dst src n = take dst buf @ map Some (take n src) @ drop (dst + n) buf"

text \<open>
  \<open>make_sign_blob\<close> returns the buffer and stores its size in \<open>*out_size\<close>; the model
  returns both. Reading a cell that was never written gives an unspecified byte
  (\<open>the None\<close>). Sizes are natural numbers: \<open>rel_path\<close> and \<open>content\<close> are objects
  in memory, so \<open>1 + rel_path_len + 1 + content_len\<close> does not reach \<open>2^64\<close>.
  \<open>make_sign_blob_tail\<close> is what follows the test of the type (lines 191 to 198), which
  both supported types reach with the tag written and \<open>dst\<close> advanced by one.
\<close>

definition make_sign_blob_tail ::
  "buffer \<Rightarrow> nat \<Rightarrow> byte list \<Rightarrow> nat \<Rightarrow> byte list \<Rightarrow> nat \<Rightarrow> byte list \<times> nat" where
  "make_sign_blob_tail to_sign dst0 rel_path rel_path_len content to_sign_len =
     (let to_sign = memcpy to_sign dst0 rel_path rel_path_len;
          dst = dst0 + rel_path_len;
          to_sign = poke to_sign dst NUL;
          dst = dst + 1;
          to_sign = memcpy to_sign dst content (length content);
          dst = dst + length content
      in (map the to_sign, to_sign_len))"

definition make_sign_blob ::
  "byte list \<Rightarrow> 32 word \<Rightarrow> byte list \<Rightarrow> g_file_error + byte list \<times> nat" where
  "make_sign_blob rel_path type content =
     (let rel_path_len = strlen rel_path;
          to_sign_len = 1 + rel_path_len + 1 + length content;
          to_sign = g_malloc to_sign_len;
          dst = 0
      in if type = S_IFREG then
           Inr (make_sign_blob_tail (poke to_sign dst (CHR 0x00)) (dst + 1)
                  rel_path rel_path_len content to_sign_len)
         else if type = S_IFLNK then
           Inr (make_sign_blob_tail (poke to_sign dst (CHR 0x01)) (dst + 1)
                  rel_path rel_path_len content to_sign_len)
         else Inl G_FILE_ERROR_INVAL)"

section \<open>Path prefixes (utils.c, \<open>has_path_prefix\<close>)\<close>

text \<open>
  The two inner \<open>while (*s == '/') s++\<close> loops are \<open>skip_slashes\<close>. The loop that
  compares one path element is \<open>compare_element\<close>: it gives \<open>None\<close> where the source
  returns \<open>FALSE\<close> from inside the loop, and the two advanced pointers otherwise. The
  outer \<open>while (TRUE)\<close> is the recursion of \<open>has_path_prefix\<close>; every round that
  does not return consumes at least one byte of the prefix, which is its termination
  argument.
\<close>

fun skip_slashes :: "byte list \<Rightarrow> byte list" where
  "skip_slashes [] = []"
| "skip_slashes (c # s) = (if c = CHR ''/'' then skip_slashes s else c # s)"

fun compare_element :: "byte list \<Rightarrow> byte list \<Rightarrow> (byte list \<times> byte list) option" where
  "compare_element str [] = Some (str, [])"
| "compare_element str (p # pfx) =
     (if p \<noteq> NUL \<and> p \<noteq> CHR ''/'' then
        (if cur str \<noteq> p then None else compare_element (tl str) pfx)
      else Some (str, p # pfx))"

lemma length_skip_slashes: "length (skip_slashes s) \<le> length s"
  by (induction s) auto

lemma cur_skip_slashes: "cur (skip_slashes s) \<noteq> CHR ''/''"
  by (induction s) (auto simp: cur_def)

lemma compare_element_length:
  "compare_element s p = Some (s', p') \<Longrightarrow>
     length p' \<le> length p \<and> (cur p \<noteq> NUL \<and> cur p \<noteq> CHR ''/'' \<longrightarrow> length p' < length p)"
  by (induction s p rule: compare_element.induct) (auto simp: cur_def split: if_splits)

function has_path_prefix :: "byte list \<Rightarrow> byte list \<Rightarrow> bool" where
  "has_path_prefix str pfx =
     (let str = skip_slashes str; pfx = skip_slashes pfx
      in if cur pfx = NUL then True
         else (case compare_element str pfx of
                 None \<Rightarrow> False
               | Some (str, pfx) \<Rightarrow>
                   if cur str \<noteq> CHR ''/'' \<and> cur str \<noteq> NUL then False
                   else has_path_prefix str pfx))"
  by pat_completeness auto
termination
proof (relation "measure (\<lambda>(str, pfx). length pfx)")
  show "wf (measure (\<lambda>(str, pfx). length pfx))" by simp
next
  fix str pfx :: "byte list" and x xa x2 and xb y :: "byte list"
  assume "x = skip_slashes str" "xa = skip_slashes pfx" "cur xa \<noteq> NUL"
    "compare_element x xa = Some x2" "(xb, y) = x2"
  then have ce: "compare_element (skip_slashes str) (skip_slashes pfx) = Some (xb, y)"
    and nn: "cur (skip_slashes pfx) \<noteq> NUL" by auto
  from compare_element_length [OF ce] nn cur_skip_slashes [of pfx]
  have "length y < length (skip_slashes pfx)" by simp
  with length_skip_slashes [of pfx]
  show "((xb, y), (str, pfx)) \<in> measure (\<lambda>(str, pfx). length pfx)" by simp
qed

declare has_path_prefix.simps [simp del]

text \<open>
  The specification's reading of a path: its segments are the non-empty pieces between
  slashes of the string's text, so repeated, leading and trailing slashes do not count.
  \<open>in_element c\<close> says that \<open>c\<close> is a byte of a path element (neither the terminator
  nor a slash).
\<close>

fun split_path :: "byte list \<Rightarrow> byte list list" where
  "split_path [] = [[]]"
| "split_path (c # cs) =
     (if c = CHR ''/'' then [] # split_path cs
      else (case split_path cs of [] \<Rightarrow> [[c]] | w # ws \<Rightarrow> (c # w) # ws))"

definition path_segments :: "byte list \<Rightarrow> byte list list" where
  "path_segments s = filter (\<lambda>w. w \<noteq> []) (split_path (cstr s))"


section \<open>The signature engine\<close>

text \<open>
  The OpenSSL calls of \<open>sign_data\<close> and \<open>validate_data\<close> are a parameter of the model,
  with keys (\<open>EVP_PKEY *\<close>) of any type \<open>'k\<close>.
  \<^item> \<open>EVP_MD_CTX_new eng i\<close>: the context allocation number \<open>i\<close> of the call succeeds
    (in \<open>validate_data\<close> the loop allocates one context per key tried).
  \<^item> \<open>EVP_DigestSignInit eng k\<close>, \<open>EVP_DigestVerifyInit eng k\<close>: the return code.
  \<^item> \<open>EVP_DigestSign_size eng k tbs\<close>: the sizing call (\<open>sigret = NULL\<close>); \<open>None\<close>
    when it returns 0, else the size it stores in \<open>*siglen\<close>.
  \<^item> \<open>EVP_DigestSign eng k n tbs\<close>: the signing call into a buffer of \<open>n\<close> bytes;
    \<open>None\<close> when it returns 0, else the bytes it writes, whose number it stores in
    \<open>*siglen\<close>.
  \<^item> \<open>EVP_DigestVerify eng k sig tbs\<close>: the return code; 1 is a valid signature, 0 a
    signature that does not match, anything else a failure of the engine.
\<close>

record 'k engine =
  EVP_MD_CTX_new :: "nat \<Rightarrow> bool"
  EVP_DigestSignInit :: "'k \<Rightarrow> int"
  EVP_DigestSign_size :: "'k \<Rightarrow> byte list \<Rightarrow> nat option"
  EVP_DigestSign :: "'k \<Rightarrow> nat \<Rightarrow> byte list \<Rightarrow> byte list option"
  EVP_DigestVerifyInit :: "'k \<Rightarrow> int"
  EVP_DigestVerify :: "'k \<Rightarrow> byte list \<Rightarrow> byte list \<Rightarrow> int"

section \<open>Signing and validating a blob (utils.c, \<open>sign_data\<close>, \<open>validate_data\<close>)\<close>

text \<open>
  \<open>VALIDATOR_SIGNATURE_MAGIC\<close> and \<open>VALIDATOR_SIGNATURE_MAGIC_LEN\<close> are macros of
  utils.h. The marker is the parameter \<open>magic\<close> of both functions.
\<close>

definition VALIDATOR_SIGNATURE_MAGIC_LEN :: "byte list \<Rightarrow> nat" where
  \<comment> \<open>Modelled from the spec: utils.h is missing; the marker is a fixed byte sequence and
      the macro is its length.\<close>
  "VALIDATOR_SIGNATURE_MAGIC_LEN magic = length magic"

text \<open>
  Every failure of \<open>sign_data\<close> after the blob is built goes through \<open>fail_ssl\<close>, which
  sets a \<open>G_FILE_ERROR_FAILED\<close> error and returns \<open>FALSE\<close>. On success the model
  returns the first \<open>*signature_len_out\<close> bytes of \<open>*signature_out\<close>.
\<close>

definition sign_data ::
  "byte list \<Rightarrow> 'k engine \<Rightarrow> 32 word \<Rightarrow> byte list \<Rightarrow> byte list \<Rightarrow> 'k \<Rightarrow> g_file_error + byte list" where
  "sign_data magic eng type rel_path content pkey =
     (case make_sign_blob rel_path type content of
        Inl e \<Rightarrow> Inl e
      | Inr (to_sign, to_sign_len) \<Rightarrow>
          if \<not> EVP_MD_CTX_new eng 0 then Inl G_FILE_ERROR_FAILED
          else if EVP_DigestSignInit eng pkey = 0 then Inl G_FILE_ERROR_FAILED
          else
            (case EVP_DigestSign_size eng pkey (take to_sign_len to_sign) of
               None \<Rightarrow> Inl G_FILE_ERROR_FAILED
             | Some signature_len \<Rightarrow>
                 (let signature = g_malloc (VALIDATOR_SIGNATURE_MAGIC_LEN magic + signature_len);
                      signature = memcpy signature 0 magic (VALIDATOR_SIGNATURE_MAGIC_LEN magic)
                  in case EVP_DigestSign eng pkey signature_len (take to_sign_len to_sign) of
                       None \<Rightarrow> Inl G_FILE_ERROR_FAILED
                     | Some written \<Rightarrow>
                         (let signature =
                                memcpy signature (VALIDATOR_SIGNATURE_MAGIC_LEN magic)
                                  written (length written);
                              signature_len = length written
                          in Inr (map the
                                   (take (VALIDATOR_SIGNATURE_MAGIC_LEN magic + signature_len)
                                      signature))))))"

text \<open>
  \<open>validate_data\<close> returns \<open>TRUE\<close> (\<open>Inr True\<close>), \<open>FALSE\<close> with no error set
  (\<open>Inr False\<close>) or \<open>FALSE\<close> with \<open>*error\<close> set (\<open>Inl\<close>). The second component of the
  model's result lists the keys for which the body of the \<open>for\<close> loop was entered, in
  order: the key trials. \<open>validate_data_loop\<close> is that loop, \<open>i\<close> counting its rounds.
\<close>

fun validate_data_loop ::
  "'k engine \<Rightarrow> byte list \<Rightarrow> byte list \<Rightarrow> nat \<Rightarrow> 'k list \<Rightarrow> (g_file_error + bool) \<times> 'k list" where
  "validate_data_loop eng sig to_sign i [] = (Inr False, [])"
| "validate_data_loop eng sig to_sign i (key # l) =
     (if \<not> EVP_MD_CTX_new eng i then (Inl G_FILE_ERROR_FAILED, [key])
      else if EVP_DigestVerifyInit eng key = 0 then (Inl G_FILE_ERROR_FAILED, [key])
      else
        (let res = EVP_DigestVerify eng key sig to_sign
         in if res = 1 then (Inr True, [key])
            else if res \<noteq> 0 then (Inl G_FILE_ERROR_FAILED, [key])
            else (case validate_data_loop eng sig to_sign (i + 1) l of
                    (r, tried) \<Rightarrow> (r, key # tried))))"

definition validate_data ::
  "byte list \<Rightarrow> 'k engine \<Rightarrow> byte list \<Rightarrow> 32 word \<Rightarrow> byte list \<Rightarrow> byte list \<Rightarrow> 'k list
     \<Rightarrow> (g_file_error + bool) \<times> 'k list" where
  "validate_data magic eng rel_path type content sig pub_keys =
     (if length sig < VALIDATOR_SIGNATURE_MAGIC_LEN magic
         \<or> take (VALIDATOR_SIGNATURE_MAGIC_LEN magic) sig
             \<noteq> take (VALIDATOR_SIGNATURE_MAGIC_LEN magic) magic
      then (Inl G_FILE_ERROR_INVAL, [])
      else
        (let sig = drop (VALIDATOR_SIGNATURE_MAGIC_LEN magic) sig
         in case make_sign_blob rel_path type content of
              Inl e \<Rightarrow> (Inl e, [])
            | Inr (to_sign, to_sign_len) \<Rightarrow>
                validate_data_loop eng sig (take to_sign_len to_sign) 0 pub_keys))"

text \<open>
  How one round of the loop ends, for the key at position \<open>i\<close>: the key validates, it
  merely fails to validate, or the engine fails.
\<close>

definition trial_validates :: "'k engine \<Rightarrow> nat \<Rightarrow> 'k \<Rightarrow> byte list \<Rightarrow> byte list \<Rightarrow> bool" where
  "trial_validates eng i key sig to_sign \<longleftrightarrow>
     EVP_MD_CTX_new eng i \<and> EVP_DigestVerifyInit eng key \<noteq> 0
       \<and> EVP_DigestVerify eng key sig to_sign = 1"

definition trial_mismatch :: "'k engine \<Rightarrow> nat \<Rightarrow> 'k \<Rightarrow> byte list \<Rightarrow> byte list \<Rightarrow> bool" where
  "trial_mismatch eng i key sig to_sign \<longleftrightarrow>
     EVP_MD_CTX_new eng i \<and> EVP_DigestVerifyInit eng key \<noteq> 0
       \<and> EVP_DigestVerify eng key sig to_sign = 0"

definition trial_hard_error :: "'k engine \<Rightarrow> nat \<Rightarrow> 'k \<Rightarrow> byte list \<Rightarrow> byte list \<Rightarrow> bool" where
  "trial_hard_error eng i key sig to_sign \<longleftrightarrow>
     \<not> EVP_MD_CTX_new eng i \<or> EVP_DigestVerifyInit eng key = 0
       \<or> (EVP_DigestVerify eng key sig to_sign \<noteq> 1 \<and> EVP_DigestVerify eng key sig to_sign \<noteq> 0)"

text \<open>
  The primitive verifies what it signs: whatever \<open>EVP_DigestSign\<close> writes for the
  private key \<open>sk\<close> over some bytes, \<open>EVP_DigestVerify\<close> accepts for the public key
  \<open>pk\<close> over the same bytes.
\<close>

definition verifies_what_it_signs :: "'k engine \<Rightarrow> 'k \<Rightarrow> 'k \<Rightarrow> bool" where
  "verifies_what_it_signs eng sk pk \<longleftrightarrow>
     (\<forall>n tbs written. EVP_DigestSign eng sk n tbs = Some written
        \<longrightarrow> EVP_DigestVerify eng pk written tbs = 1)"

section \<open>Loading the trusted keys (utils.c, \<open>load_pub_key\<close>, \<open>load_pub_keys_from_dir\<close>)\<close>

text \<open>
  What \<open>load_pub_key\<close> meets at a path: \<open>fopen_error\<close> is the code
  \<open>g_file_error_from_errno (errno)\<close> when \<open>fopen\<close> fails, and \<open>PEM_read_PUBKEY\<close> is
  the key read from the file, \<open>None\<close> for \<open>NULL\<close>.
\<close>

record 'k key_file =
  fopen_error :: "g_file_error option"
  PEM_read_PUBKEY :: "'k option"

definition load_pub_key :: "'k key_file \<Rightarrow> g_file_error + 'k" where
  "load_pub_key file =
     (case fopen_error file of
        Some e \<Rightarrow> Inl e
      | None \<Rightarrow>
          (case PEM_read_PUBKEY file of
             None \<Rightarrow> Inl G_FILE_ERROR_INVAL
           | Some pkey \<Rightarrow> Inr pkey))"

text \<open>
  The key directory is what \<open>g_dir_open\<close> returns: an error, or the entries that
  \<open>g_dir_read_name\<close> then enumerates, in that order, each with the file found at
  \<open>g_build_filename (key_dir, filename)\<close>. A \<open>GList\<close> is a list whose head is the
  first element, so \<open>g_list_prepend\<close> is \<open>#\<close>.
\<close>

fun load_pub_keys_loop :: "(byte list \<times> 'k key_file) list \<Rightarrow> 'k list \<Rightarrow> g_file_error + 'k list" where
  "load_pub_keys_loop [] keys = Inr keys"
| "load_pub_keys_loop ((filename, file) # rest) keys =
     (case load_pub_key file of
        Inl my_error \<Rightarrow>
          if my_error \<noteq> G_FILE_ERROR_NOENT \<and> my_error \<noteq> G_FILE_ERROR_ISDIR then Inl my_error
          else load_pub_keys_loop rest keys
      | Inr pkey \<Rightarrow> load_pub_keys_loop rest (pkey # keys))"

definition load_pub_keys_from_dir ::
  "g_file_error + (byte list \<times> 'k key_file) list \<Rightarrow> g_file_error + 'k list" where
  "load_pub_keys_from_dir key_dir =
     (case key_dir of
        Inl my_error \<Rightarrow> if my_error = G_FILE_ERROR_NOENT then Inr [] else Inl my_error
      | Inr dir \<Rightarrow> load_pub_keys_loop dir [])"

text \<open>The keys of the entries that load, in the order of enumeration.\<close>

definition enumerated_keys :: "(byte list \<times> 'k key_file) list \<Rightarrow> 'k list" where
  "enumerated_keys dir =
     List.map_filter (\<lambda>(filename, file). case load_pub_key file of Inl e \<Rightarrow> None | Inr k \<Rightarrow> Some k) dir"

definition skipped_or_loaded :: "'k key_file \<Rightarrow> bool" where
  "skipped_or_loaded file \<longleftrightarrow>
     (case load_pub_key file of
        Inl e \<Rightarrow> e = G_FILE_ERROR_NOENT \<or> e = G_FILE_ERROR_ISDIR
      | Inr k \<Rightarrow> True)"

section \<open>The tree walks (sign.c, validate.c)\<close>

text \<open>
  The program's options (\<open>opt_force\<close>, ...) are global variables set from the command
  line; \<open>env\<close> holds them together with the marker, the engine and
  \<open>opt_get_relative_path\<close>, which main.h declares and the walks call: it gives the path
  relative to \<open>relative_to\<close>, or \<open>NULL\<close> (\<open>None\<close>) for a path it rejects.
\<close>

record 'k env =
  VALIDATOR_SIGNATURE_MAGIC :: "byte list"
  crypto :: "'k engine"
  opt_get_relative_path :: "byte list \<Rightarrow> byte list \<Rightarrow> byte list option \<Rightarrow> byte list option"
  opt_force :: bool
  opt_recursive :: bool
  opt_private_key :: 'k
  opt_public_keys :: "'k list"
  opt_path_prefix :: "byte list option"
  opt_path_relative :: "byte list option"

text \<open>
  What a walk meets in the file system is a tree. At a path, \<open>lstat\<close> is the
  \<open>st_mode\<close> that \<open>lstat\<close> stores, \<open>None\<close> when it fails; \<open>g_dir_open\<close> is the
  error of opening the path as a directory, \<open>None\<close> when it opens, and then \<open>entries\<close>
  are the names \<open>g_dir_read_name\<close> returns, in order, each with what is met at the
  child's path. \<open>io\<close> is what the calls on a leaf give:
  \<^item> \<open>sig_exists\<close>: \<open>g_file_test (sig_path, G_FILE_TEST_EXISTS)\<close>;
  \<^item> \<open>sig_contents\<close>: \<open>g_file_get_contents (sig_path, ...)\<close>;
  \<^item> \<open>sha512_file\<close>: the digest of the file's content, or the error of reading it;
  \<^item> \<open>g_file_read_link\<close>: the link's target, or the error of reading it;
  \<^item> \<open>stale_errno\<close>: the code of whatever \<open>errno\<close> holds;
  \<^item> \<open>g_file_set_contents\<close>: the error of writing \<open>sig_path\<close>, \<open>None\<close> when written.
\<close>

record leaf_io =
  sig_exists :: bool
  sig_contents :: "g_file_error + byte list"
  sha512_file :: "g_file_error + byte list"
  g_file_read_link :: "g_file_error + byte list"
  stale_errno :: g_file_error
  g_file_set_contents :: "g_file_error option"

datatype fsnode =
  Node (lstat: "32 word option") (io: leaf_io) (g_dir_open: "g_file_error option")
       (entries: "(byte list \<times> fsnode) list")

text \<open>
  GLib: \<open>g_str_has_suffix\<close> compares the last bytes of the string with the suffix;
  \<open>g_build_filename\<close> of two non-empty elements drops the separators that end the
  first and start the second, and puts one between them.
\<close>

definition g_str_has_suffix :: "byte list \<Rightarrow> byte list \<Rightarrow> bool" where
  "g_str_has_suffix str sfx =
     (if length str < length sfx then False
      else drop (length str - length sfx) str = sfx)"

definition g_build_filename :: "byte list \<Rightarrow> byte list \<Rightarrow> byte list" where
  "g_build_filename first_element second_element =
     rev (dropWhile (\<lambda>c. c = CHR ''/'') (rev first_element)) @ ''/''
       @ dropWhile (\<lambda>c. c = CHR ''/'') second_element"

text \<open>
  \<open>load_file_data_for_sign\<close> (utils.c) as the walks call it: with the \<open>stat\<close> buffer
  they filled and no \<open>type_out\<close> or \<open>fd_out\<close>. It returns the content that is signed:
  the digest of a regular file, the target of a link up to its terminator.
\<close>

definition load_file_data_for_sign :: "32 word \<Rightarrow> leaf_io \<Rightarrow> g_file_error + byte list" where
  "load_file_data_for_sign st_mode leaf =
     (let type = st_mode AND S_IFMT
      in if type \<noteq> S_IFREG \<and> type \<noteq> S_IFLNK then Inl (stale_errno leaf)
         else if type = S_IFREG then sha512_file leaf
         else (case g_file_read_link leaf of
                 Inl e \<Rightarrow> Inl e
               | Inr content \<Rightarrow> Inr (cstr content)))"

text \<open>
  The branch of \<open>sign\<close> for a regular file or a link (sign.c, lines 41 to 82) and the
  branch of \<open>validate\<close> (validate.c, lines 41 to 83). Each gives the value the function
  returns from that branch.
\<close>

definition sign_leaf :: "'k env \<Rightarrow> byte list \<Rightarrow> byte list \<Rightarrow> 32 word \<Rightarrow> leaf_io \<Rightarrow> bool" where
  "sign_leaf env path relative_to st_mode leaf =
     (if \<not> opt_force env \<and> sig_exists leaf then True
      else
        (case load_file_data_for_sign st_mode leaf of
           Inl error \<Rightarrow> False
         | Inr content \<Rightarrow>
             (case opt_get_relative_path env path relative_to (opt_path_prefix env) of
                None \<Rightarrow> False
              | Some rel_path \<Rightarrow>
                  (case sign_data (VALIDATOR_SIGNATURE_MAGIC env) (crypto env)
                          (st_mode AND S_IFMT) rel_path content (opt_private_key env) of
                     Inl error \<Rightarrow> False
                   | Inr signature \<Rightarrow>
                       (case g_file_set_contents leaf of
                          Some error \<Rightarrow> False
                        | None \<Rightarrow> True)))))"

definition validate_leaf :: "'k env \<Rightarrow> byte list \<Rightarrow> byte list \<Rightarrow> 32 word \<Rightarrow> leaf_io \<Rightarrow> bool" where
  "validate_leaf env path relative_to st_mode leaf =
     (case sig_contents leaf of
        Inl error \<Rightarrow> False
      | Inr signature \<Rightarrow>
          (case load_file_data_for_sign st_mode leaf of
             Inl error \<Rightarrow> False
           | Inr content \<Rightarrow>
               (case opt_get_relative_path env path relative_to (opt_path_prefix env) of
                  None \<Rightarrow> False
                | Some rel_path \<Rightarrow>
                    (case fst (validate_data (VALIDATOR_SIGNATURE_MAGIC env) (crypto env) rel_path
                                 (st_mode AND S_IFMT) content signature (opt_public_keys env)) of
                       Inl validate_error \<Rightarrow> False
                     | Inr valid \<Rightarrow> valid))))"

text \<open>
  \<open>sign path relative_to\<close> and \<open>validate path relative_to\<close>. The model returns the
  value of the function and the paths of all calls of the function that the call made,
  itself first, in order: the trace of the walk. \<open>sign_children\<close> and
  \<open>validate_children\<close> are the \<open>while\<close> loops over the directory, \<open>success\<close> being the
  variable of that name.
\<close>

fun sign :: "'k env \<Rightarrow> byte list \<Rightarrow> byte list \<Rightarrow> fsnode \<Rightarrow> bool \<times> byte list list"
  and sign_children ::
    "'k env \<Rightarrow> byte list \<Rightarrow> byte list \<Rightarrow> (byte list \<times> fsnode) list \<Rightarrow> bool
       \<Rightarrow> bool \<times> byte list list"
where
  "sign env path relative_to (Node st leaf dir children) =
     (case st of
        None \<Rightarrow> (False, [path])
      | Some st_mode \<Rightarrow>
          (let type = st_mode AND S_IFMT
           in if type = S_IFREG \<or> type = S_IFLNK then
                (sign_leaf env path relative_to st_mode leaf, [path])
              else if type = S_IFDIR then
                (case dir of
                   Some dir_error \<Rightarrow>
                     if dir_error = G_FILE_ERROR_NOENT then (True, [path]) else (False, [path])
                 | None \<Rightarrow>
                     (case sign_children env path relative_to children True of
                        (success, visited) \<Rightarrow> (success, path # visited)))
              else (False, [path])))"
| "sign_children env path relative_to [] success = (success, [])"
| "sign_children env path relative_to ((child, n) # rest) success =
     (if g_str_has_suffix child ''.sig'' then sign_children env path relative_to rest success
      else
        (case sign env (g_build_filename path child) relative_to n of
           (ok, visited) \<Rightarrow>
             (case sign_children env path relative_to rest (if \<not> ok then False else success) of
                (success', visited') \<Rightarrow> (success', visited @ visited'))))"

fun validate :: "'k env \<Rightarrow> byte list \<Rightarrow> byte list \<Rightarrow> fsnode \<Rightarrow> bool \<times> byte list list"
  and validate_children ::
    "'k env \<Rightarrow> byte list \<Rightarrow> byte list \<Rightarrow> (byte list \<times> fsnode) list \<Rightarrow> bool
       \<Rightarrow> bool \<times> byte list list"
where
  "validate env path relative_to (Node st leaf dir children) =
     (case st of
        None \<Rightarrow> (False, [path])
      | Some st_mode \<Rightarrow>
          (let type = st_mode AND S_IFMT
           in if type = S_IFREG \<or> type = S_IFLNK then
                (validate_leaf env path relative_to st_mode leaf, [path])
              else if type = S_IFDIR then
                (case dir of
                   Some dir_error \<Rightarrow>
                     if dir_error = G_FILE_ERROR_NOENT then (True, [path]) else (False, [path])
                 | None \<Rightarrow>
                     (case validate_children env path relative_to children True of
                        (success, visited) \<Rightarrow> (success, path # visited)))
              else (False, [path])))"
| "validate_children env path relative_to [] success = (success, [])"
| "validate_children env path relative_to ((child, n) # rest) success =
     (if g_str_has_suffix child ''.sig'' then validate_children env path relative_to rest success
      else
        (case validate env (g_build_filename path child) relative_to n of
           (ok, visited) \<Rightarrow>
             (case validate_children env path relative_to rest (if \<not> ok then False else success) of
                (success', visited') \<Rightarrow> (success', visited @ visited'))))"

text \<open>
  \<open>cmd_sign\<close> and \<open>cmd_validate\<close>. An argument \<open>argv[i]\<close>, \<open>i \<ge> 1\<close>, is given by
  \<open>canonical\<close>, the result of \<open>g_canonicalize_filename\<close>; \<open>is_dir\<close>, the result of
  \<open>g_file_test (path, G_FILE_TEST_IS_DIR)\<close>; \<open>dirname\<close>, the result of
  \<open>g_path_get_dirname\<close>; and \<open>tree\<close>, what the walk from the path meets. With no
  argument the source calls \<open>help_error\<close>, which is not part of these files: the model
  returns \<open>None\<close> there. Otherwise it returns the exit status and the trace of all
  walks.
\<close>

record root_arg =
  canonical :: "byte list"
  is_dir :: bool
  dirname :: "byte list"
  tree :: fsnode

definition EXIT_SUCCESS :: int where "EXIT_SUCCESS = 0"
definition EXIT_FAILURE :: int where "EXIT_FAILURE = 1"

fun cmd_sign_loop :: "'k env \<Rightarrow> root_arg list \<Rightarrow> bool \<Rightarrow> int \<times> byte list list" where
  "cmd_sign_loop env [] res = (if res then EXIT_SUCCESS else EXIT_FAILURE, [])"
| "cmd_sign_loop env (a # argv) res =
     (if is_dir a then
        (if \<not> opt_recursive env then (EXIT_FAILURE, [])
         else
           (case sign env (canonical a)
                   (case opt_path_relative env of Some r \<Rightarrow> r | None \<Rightarrow> canonical a) (tree a) of
              (ok, visited) \<Rightarrow>
                (case cmd_sign_loop env argv (if \<not> ok then False else res) of
                   (status, visited') \<Rightarrow> (status, visited @ visited'))))
      else
        (case sign env (canonical a)
                (case opt_path_relative env of Some r \<Rightarrow> r | None \<Rightarrow> dirname a) (tree a) of
           (ok, visited) \<Rightarrow>
             (case cmd_sign_loop env argv (if \<not> ok then False else res) of
                (status, visited') \<Rightarrow> (status, visited @ visited'))))"

definition cmd_sign :: "'k env \<Rightarrow> root_arg list \<Rightarrow> (int \<times> byte list list) option" where
  "cmd_sign env argv = (if argv = [] then None else Some (cmd_sign_loop env argv True))"

fun cmd_validate_loop :: "'k env \<Rightarrow> root_arg list \<Rightarrow> bool \<Rightarrow> int \<times> byte list list" where
  "cmd_validate_loop env [] res = (if res then EXIT_SUCCESS else EXIT_FAILURE, [])"
| "cmd_validate_loop env (a # argv) res =
     (if is_dir a then
        (if \<not> opt_recursive env then (EXIT_FAILURE, [])
         else
           (case validate env (canonical a)
                   (case opt_path_relative env of Some r \<Rightarrow> r | None \<Rightarrow> canonical a) (tree a) of
              (ok, visited) \<Rightarrow>
                (case cmd_validate_loop env argv (if \<not> ok then False else res) of
                   (status, visited') \<Rightarrow> (status, visited @ visited'))))
      else
        (case validate env (canonical a)
                (case opt_path_relative env of Some r \<Rightarrow> r | None \<Rightarrow> dirname a) (tree a) of
           (ok, visited) \<Rightarrow>
             (case cmd_validate_loop env argv (if \<not> ok then False else res) of
                (status, visited') \<Rightarrow> (status, visited @ visited'))))"

definition cmd_validate :: "'k env \<Rightarrow> root_arg list \<Rightarrow> (int \<times> byte list list) option" where
  "cmd_validate env argv = (if argv = [] then None else Some (cmd_validate_loop env argv True))"

text \<open>
  For the statements about the walks: the entries of a directory that the loop does not
  skip, and the root the walk of an argument is relative to.
\<close>

definition visited_children :: "(byte list \<times> fsnode) list \<Rightarrow> (byte list \<times> fsnode) list" where
  "visited_children children = filter (\<lambda>(child, n). \<not> g_str_has_suffix child ''.sig'') children"

definition relative_root :: "'k env \<Rightarrow> root_arg \<Rightarrow> byte list" where
  "relative_root env a =
     (case opt_path_relative env of
        Some r \<Rightarrow> r
      | None \<Rightarrow> if is_dir a then canonical a else dirname a)"




section \<open>A small engine and file system for the closed examples\<close>

text \<open>
  Keys are bytes. The signature of \<open>tbs\<close> under the key \<open>k\<close> is \<open>k # tbs\<close>, and a key
  verifies exactly the signatures made with itself; with the key \<open>X\<close> the engine cannot
  verify at all and \<open>EVP_DigestVerify\<close> returns \<open>-1\<close>. \<open>demo_relative\<close> accepts the
  paths under \<open>relative_to\<close> and rejects all others.
\<close>

definition demo_engine :: "byte engine" where
  "demo_engine =
     \<lparr> EVP_MD_CTX_new = (\<lambda>i. True),
       EVP_DigestSignInit = (\<lambda>k. 1),
       EVP_DigestSign_size = (\<lambda>k tbs. Some (Suc (length tbs))),
       EVP_DigestSign = (\<lambda>k n tbs. if length tbs < n then Some (k # tbs) else None),
       EVP_DigestVerifyInit = (\<lambda>k. 1),
       EVP_DigestVerify =
         (\<lambda>k sig tbs. if k = CHR ''X'' then - 1 else if sig = k # tbs then 1 else 0) \<rparr>"

definition demo_relative :: "byte list \<Rightarrow> byte list \<Rightarrow> byte list option \<Rightarrow> byte list option" where
  "demo_relative path relative_to path_prefix =
     (if has_path_prefix path relative_to then Some path else None)"

definition demo_env :: "byte env" where
  "demo_env =
     \<lparr> VALIDATOR_SIGNATURE_MAGIC = ''SIG1'',
       crypto = demo_engine,
       opt_get_relative_path = demo_relative,
       opt_force = False,
       opt_recursive = True,
       opt_private_key = CHR ''A'',
       opt_public_keys = [CHR ''B'', CHR ''A''],
       opt_path_prefix = None,
       opt_path_relative = None \<rparr>"

text \<open>
  A regular file with the digest \<open>d\<close> and no signature beside it, one that cannot be
  read, a directory that opens with the entries \<open>children\<close>, and a directory that is
  gone when it is opened.
\<close>

definition demo_io :: "g_file_error + byte list \<Rightarrow> leaf_io" where
  "demo_io d =
     \<lparr> sig_exists = False,
       sig_contents = Inl G_FILE_ERROR_NOENT,
       sha512_file = d,
       g_file_read_link = Inl G_FILE_ERROR_INVAL,
       stale_errno = G_FILE_ERROR_errno 0,
       g_file_set_contents = None \<rparr>"

definition regular_file :: "byte list \<Rightarrow> fsnode" where
  "regular_file d = Node (Some S_IFREG) (demo_io (Inr d)) None []"

definition unreadable_file :: fsnode where
  "unreadable_file = Node (Some S_IFREG) (demo_io (Inl (G_FILE_ERROR_errno 13))) None []"

definition directory :: "(byte list \<times> fsnode) list \<Rightarrow> fsnode" where
  "directory children = Node (Some S_IFDIR) (demo_io (Inl G_FILE_ERROR_ISDIR)) None children"

definition vanished_directory :: fsnode where
  "vanished_directory =
     Node (Some S_IFDIR) (demo_io (Inl G_FILE_ERROR_ISDIR)) (Some G_FILE_ERROR_NOENT) []"

definition signed_file :: "byte list \<Rightarrow> byte list \<Rightarrow> fsnode" where
  \<comment> \<open>A regular file with the digest \<open>d\<close> and the signature file \<open>envelope\<close> beside it.\<close>
  "signed_file d envelope =
     Node (Some S_IFREG) ((demo_io (Inr d)) \<lparr>sig_exists := True, sig_contents := Inr envelope\<rparr>) None []"

definition symlink_to :: "byte list \<Rightarrow> fsnode" where
  \<comment> \<open>A symbolic link with the target \<open>target\<close> and no signature beside it.\<close>
  "symlink_to target =
     Node (Some S_IFLNK) ((demo_io (Inl G_FILE_ERROR_INVAL)) \<lparr>g_file_read_link := Inr target\<rparr>) None []"

section \<open>The layout of the blob\<close>

lemma take_strlen: "take (strlen p) p = cstr p"
  unfolding strlen_def cstr_def by (rule takeWhile_eq_take [symmetric])

lemma strlen_le: "strlen p \<le> length p"
  unfolding strlen_def cstr_def by (rule length_takeWhile_le)

lemma cstr_no_NUL: "NUL \<notin> set p \<Longrightarrow> cstr p = p"
  unfolding cstr_def by (induction p) auto

text \<open>
  A buffer written from the left: the bytes written so far, then the cells still
  unwritten. A byte stored at the end of the written part, and a copy that fits the
  source, extend the written part.
\<close>

lemma poke_next:
  "poke (map Some xs @ replicate (Suc m) None) (length xs) b = map Some (xs @ [b]) @ replicate m None"
  by (simp add: poke_def list_update_append)

lemma memcpy_next:
  assumes "k \<le> length src"
  shows "memcpy (map Some xs @ replicate (k + m) None) (length xs) src k
           = map Some (xs @ take k src) @ replicate m None"
  using assms by (simp add: memcpy_def replicate_add [symmetric] del: replicate_add)

lemma make_sign_blob_tail_layout:
  "make_sign_blob_tail (map Some [t] @ replicate (strlen p + (Suc (length c + 0))) None)
       (length [t]) p (strlen p) c n
     = (t # cstr p @ [NUL] @ c, n)"
proof -
  let ?b1 = "memcpy (map Some [t] @ replicate (strlen p + (Suc (length c + 0))) None)
               (length [t]) p (strlen p)"
  have b1: "?b1 = map Some ([t] @ cstr p) @ replicate (Suc (length c + 0)) None"
    by (simp only: memcpy_next [OF strlen_le] take_strlen)
  have d1: "length [t] + strlen p = length ([t] @ cstr p)"
    by (simp add: strlen_def)
  let ?b2 = "poke ?b1 (length [t] + strlen p) NUL"
  have b2: "?b2 = map Some (([t] @ cstr p) @ [NUL]) @ replicate (length c + 0) None"
    by (simp only: b1 d1 poke_next)
  have d2: "length [t] + strlen p + 1 = length (([t] @ cstr p) @ [NUL])"
    by (simp add: strlen_def)
  let ?b3 = "memcpy ?b2 (length [t] + strlen p + 1) c (length c)"
  have "?b3 = map Some ((([t] @ cstr p) @ [NUL]) @ take (length c) c) @ replicate 0 None"
    by (simp only: b2 d2 memcpy_next [OF order_refl])
  then have b3: "map the ?b3 = t # cstr p @ [NUL] @ c"
    by (simp add: comp_def)
  show ?thesis
    unfolding make_sign_blob_tail_def Let_def using b3 by simp
qed

lemma make_sign_blob_layout:
  "make_sign_blob p t c =
     (if t = S_IFREG then Inr (CHR 0x00 # cstr p @ [NUL] @ c, 1 + strlen p + 1 + length c)
      else if t = S_IFLNK then Inr (CHR 0x01 # cstr p @ [NUL] @ c, 1 + strlen p + 1 + length c)
      else Inl G_FILE_ERROR_INVAL)"
  using make_sign_blob_tail_layout [of _ p c "1 + strlen p + 1 + length c"]
  by (simp add: make_sign_blob_def g_malloc_def poke_def)

lemma S_IF_distinct:
  "S_IFREG \<noteq> S_IFLNK" "S_IFLNK \<noteq> S_IFREG" "S_IFDIR \<noteq> S_IFREG" "S_IFDIR \<noteq> S_IFLNK"
  "S_IFREG \<noteq> S_IFDIR" "S_IFLNK \<noteq> S_IFDIR"
  by (simp_all add: S_IFREG_def S_IFLNK_def S_IFDIR_def)

lemma S_IFMT_masks:
  "S_IFREG AND S_IFMT = S_IFREG" "S_IFLNK AND S_IFMT = S_IFLNK" "S_IFDIR AND S_IFMT = S_IFDIR"
  by (simp_all add: S_IFREG_def S_IFLNK_def S_IFDIR_def S_IFMT_def)

lemma separated_split:
  "NUL \<notin> set p \<Longrightarrow> takeWhile (\<lambda>x. x \<noteq> NUL) (p @ NUL # c) = p"
  "NUL \<notin> set p \<Longrightarrow> dropWhile (\<lambda>x. x \<noteq> NUL) (p @ NUL # c) = NUL # c"
  by (induction p) auto

lemma separated_inject:
  assumes "p @ NUL # c = p' @ NUL # c'" and "NUL \<notin> set p" and "NUL \<notin> set p'"
  shows "p = p' \<and> c = c'"
proof -
  from assms(1) have "takeWhile (\<lambda>x. x \<noteq> NUL) (p @ NUL # c) = takeWhile (\<lambda>x. x \<noteq> NUL) (p' @ NUL # c')"
    and "dropWhile (\<lambda>x. x \<noteq> NUL) (p @ NUL # c) = dropWhile (\<lambda>x. x \<noteq> NUL) (p' @ NUL # c')"
    by simp_all
  then show ?thesis
    by (simp add: separated_split [OF assms(2)] separated_split [OF assms(3)])
qed

text \<open>
  Claim C1. \<open>make_sign_blob\<close> returns exactly the tag byte, the bytes of the relative
  path, a zero byte and the content bytes, with their number as the size; the tag is
  \<open>0x00\<close> for a regular file and \<open>0x01\<close> for a link. It fails, with the error of an
  unsupported type, if and only if the type is neither. The function is pure: its model
  takes nothing but the three inputs, and no cell of the buffer it returns is left
  unwritten, so equal inputs give the same bytes.
\<close>

theorem make_sign_blob_exact:
  "(type = S_IFREG \<longrightarrow>
      make_sign_blob rel_path type content
        = Inr (CHR 0x00 # cstr rel_path @ [CHR 0x00] @ content,
               length (CHR 0x00 # cstr rel_path @ [CHR 0x00] @ content)))
   \<and> (type = S_IFLNK \<longrightarrow>
      make_sign_blob rel_path type content
        = Inr (CHR 0x01 # cstr rel_path @ [CHR 0x00] @ content,
               length (CHR 0x01 # cstr rel_path @ [CHR 0x00] @ content)))
   \<and> ((\<exists>e. make_sign_blob rel_path type content = Inl e) \<longleftrightarrow> type \<noteq> S_IFREG \<and> type \<noteq> S_IFLNK)
   \<and> (\<forall>e. make_sign_blob rel_path type content = Inl e \<longrightarrow> e = G_FILE_ERROR_INVAL)"
  by (simp add: make_sign_blob_layout S_IF_distinct strlen_def)

theorem make_sign_blob_exact_witness:
  "make_sign_blob ''a/b'' S_IFREG ''xyz''
     = Inr ([CHR 0x00, CHR ''a'', CHR ''/'', CHR ''b'', CHR 0x00, CHR ''x'', CHR ''y'', CHR ''z''], 8)
   \<and> make_sign_blob ''a/b'' S_IFLNK ''xyz''
     = Inr ([CHR 0x01, CHR ''a'', CHR ''/'', CHR ''b'', CHR 0x00, CHR ''x'', CHR ''y'', CHR ''z''], 8)
   \<and> make_sign_blob ''a/b'' S_IFDIR ''xyz'' = Inl G_FILE_ERROR_INVAL"
proof -
  have "\<exists>e. make_sign_blob ''a/b'' S_IFDIR ''xyz'' = Inl e"
    using make_sign_blob_exact [of S_IFDIR "''a/b''" "''xyz''"] by (simp add: S_IF_distinct)
  then have "make_sign_blob ''a/b'' S_IFDIR ''xyz'' = Inl G_FILE_ERROR_INVAL"
    using make_sign_blob_exact [of S_IFDIR "''a/b''" "''xyz''"] by blast
  then show ?thesis
    using make_sign_blob_exact [of S_IFREG "''a/b''" "''xyz''"]
      make_sign_blob_exact [of S_IFLNK "''a/b''" "''xyz''"]
    by (simp add: cstr_def)
qed

text \<open>
  Claim C10. On relative paths that hold no zero byte, \<open>make_sign_blob\<close> is injective:
  two calls that both return a blob return the same bytes only for the same type, the
  same path and the same content. The tag fixes the type, and the first zero byte after
  the tag ends the path.
\<close>

theorem make_sign_blob_injective:
  assumes "make_sign_blob rel_path type content = Inr (blob, n)"
    and "make_sign_blob rel_path' type' content' = Inr (blob, n')"
    and "NUL \<notin> set rel_path" and "NUL \<notin> set rel_path'"
  shows "type = type' \<and> rel_path = rel_path' \<and> content = content'"
proof -
  have t: "type = S_IFREG \<or> type = S_IFLNK" "type' = S_IFREG \<or> type' = S_IFLNK"
    using assms(1,2) by (auto simp: make_sign_blob_layout split: if_splits)
  from assms(1,2) have "(if type = S_IFREG then CHR 0x00 else CHR 0x01) # rel_path @ NUL # content
      = (if type' = S_IFREG then CHR 0x00 else CHR 0x01) # rel_path' @ NUL # content'"
    using t by (auto simp: make_sign_blob_layout cstr_no_NUL assms(3,4) S_IF_distinct split: if_splits)
  then have tag: "(if type = S_IFREG then CHR 0x00 else CHR 0x01) = (if type' = S_IFREG then CHR 0x00 else CHR 0x01)"
    and rest: "rel_path @ NUL # content = rel_path' @ NUL # content'" by simp_all
  from tag t have "type = type'" by (auto simp: S_IF_distinct split: if_splits)
  with separated_inject [OF rest assms(3,4)] show ?thesis by simp
qed

theorem make_sign_blob_injective_witness:
  "make_sign_blob ''a/b'' S_IFLNK ''xyz''
     = Inr ([CHR 0x01, CHR ''a'', CHR ''/'', CHR ''b'', CHR 0x00, CHR ''x'', CHR ''y'', CHR ''z''], 8)
   \<and> NUL \<notin> set ''a/b''
   \<and> (S_IFLNK = S_IFLNK \<and> ''a/b'' = ''a/b'' \<and> ''xyz'' = ''xyz'')"
proof -
  have b: "make_sign_blob ''a/b'' S_IFLNK ''xyz''
     = Inr ([CHR 0x01, CHR ''a'', CHR ''/'', CHR ''b'', CHR 0x00, CHR ''x'', CHR ''y'', CHR ''z''], 8)"
    by (simp add: make_sign_blob_layout S_IF_distinct cstr_def strlen_def)
  have z: "NUL \<notin> set ''a/b''" by simp
  from make_sign_blob_injective [OF b b z z] b z show ?thesis by simp
qed

section \<open>\<open>has_path_prefix\<close> compares path segments\<close>


lemma path_segments_Nil [simp]: "path_segments [] = []"
  by (simp add: path_segments_def cstr_def)

lemma path_segments_NUL [simp]: "path_segments (NUL # s) = []"
  by (simp add: path_segments_def cstr_def)

lemma path_segments_slash [simp]: "path_segments (CHR ''/'' # s) = path_segments s"
  by (simp add: path_segments_def cstr_def)




















section \<open>Signing and validating\<close>

lemma magic_len [simp]: "VALIDATOR_SIGNATURE_MAGIC_LEN magic = length magic"
  by (simp add: VALIDATOR_SIGNATURE_MAGIC_LEN_def)

lemma make_sign_blob_size:
  "make_sign_blob rel_path type content = Inr (to_sign, n) \<Longrightarrow> n = length to_sign"
  by (auto simp: make_sign_blob_layout strlen_def split: if_splits)

lemma sign_data_envelope:
  assumes "sign_data magic eng type rel_path content pkey = Inr envelope"
  shows "\<exists>to_sign n cap written.
           make_sign_blob rel_path type content = Inr (to_sign, n)
           \<and> EVP_MD_CTX_new eng 0 \<and> EVP_DigestSignInit eng pkey \<noteq> 0
           \<and> EVP_DigestSign_size eng pkey to_sign = Some cap
           \<and> EVP_DigestSign eng pkey cap to_sign = Some written
           \<and> envelope = magic @ written"
proof -
  from assms obtain to_sign n where b: "make_sign_blob rel_path type content = Inr (to_sign, n)"
    by (auto simp: sign_data_def split: sum.splits)
  then have n: "take n to_sign = to_sign" using make_sign_blob_size by fastforce
  from assms b n have c: "EVP_MD_CTX_new eng 0" "EVP_DigestSignInit eng pkey \<noteq> 0"
    by (auto simp: sign_data_def split: if_splits)
  from assms b n c obtain cap where cap: "EVP_DigestSign_size eng pkey to_sign = Some cap"
    by (auto simp: sign_data_def split: option.splits)
  from assms b n c cap obtain written where w: "EVP_DigestSign eng pkey cap to_sign = Some written"
    by (auto simp: sign_data_def Let_def split: option.splits)
  have buf: "memcpy (g_malloc (length magic + cap)) 0 magic (length magic)
               = map Some magic @ replicate cap None"
    using memcpy_next [of "length magic" magic "[]" cap] by (simp add: g_malloc_def)
  have "map the (take (length magic + length written)
          (memcpy (map Some magic @ replicate cap None) (length magic) written (length written)))
        = magic @ written"
    by (simp add: memcpy_def comp_def)
  with assms b n c cap w buf have "envelope = magic @ written"
    by (simp add: sign_data_def Let_def)
  with b c cap w show ?thesis by blast
qed

lemma validate_data_loop_validates:
  "trial_validates eng i k sig b \<Longrightarrow> validate_data_loop eng sig b i (k # rest) = (Inr True, [k])"
  by (simp add: trial_validates_def)

lemma validate_data_loop_hard_error:
  "trial_hard_error eng i k sig b \<Longrightarrow>
     validate_data_loop eng sig b i (k # rest) = (Inl G_FILE_ERROR_FAILED, [k])"
  by (auto simp: trial_hard_error_def Let_def)

lemma validate_data_loop_mismatches:
  "\<forall>j<length ks. trial_mismatch eng (i + j) (ks ! j) sig b \<Longrightarrow>
     validate_data_loop eng sig b i (ks @ rest)
       = (case validate_data_loop eng sig b (i + length ks) rest of (r, tried) \<Rightarrow> (r, ks @ tried))"
proof (induction ks arbitrary: i)
  case Nil
  then show ?case by simp
next
  case (Cons k ks)
  from Cons.prems have k: "trial_mismatch eng i k sig b" by force
  from Cons.prems have "\<forall>j<length ks. trial_mismatch eng (Suc i + j) (ks ! j) sig b" by force
  from Cons.IH [OF this] k show ?case
    by (simp add: trial_mismatch_def split: prod.splits)
qed

lemma validate_data_loop_no_hard_error:
  "\<forall>j<length ks. \<not> trial_hard_error eng (i + j) (ks ! j) sig b \<Longrightarrow>
   trial_validates eng (i + length ks) k sig b \<Longrightarrow>
     fst (validate_data_loop eng sig b i (ks @ k # rest)) = Inr True"
proof (induction ks arbitrary: i)
  case Nil
  then show ?case by (simp add: trial_validates_def)
next
  case (Cons a ks)
  from Cons.prems(1) have a: "\<not> trial_hard_error eng i a sig b" by force
  from Cons.prems(1) have "\<forall>j<length ks. \<not> trial_hard_error eng (Suc i + j) (ks ! j) sig b" by force
  from Cons.IH [OF this] Cons.prems(2) have "fst (validate_data_loop eng sig b (Suc i) (ks @ k # rest)) = Inr True"
    by simp
  with a show ?case
    by (auto simp: trial_hard_error_def Let_def split: prod.splits)
qed

lemma validate_data_stripped:
  assumes "\<not> (length sig < length magic \<or> take (length magic) sig \<noteq> magic)"
    and "make_sign_blob rel_path type content = Inr (to_sign, n)"
  shows "validate_data magic eng rel_path type content sig pub_keys
           = validate_data_loop eng (drop (length magic) sig) to_sign 0 pub_keys"
  using assms make_sign_blob_size [OF assms(2)] by (simp add: validate_data_def)


text \<open>
  Claim C3. \<open>validate_data\<close> rejects at once, with no key trial, an envelope that is
  shorter than the marker or does not start with it. Otherwise it strips the marker,
  rebuilds the blob and tries the keys in order: past keys that merely fail to validate,
  it returns \<open>TRUE\<close> at the first key that validates, it returns with an error at the
  first key for which the engine fails, and it returns \<open>FALSE\<close> with no error when every
  key merely failed to validate. In each case the keys tried are those up to the one
  that decided. Where the blob cannot be built, for a type that is neither a regular
  file nor a link, it returns that error and tries no key.
\<close>

theorem validate_data_outcomes:
  "(length sig < length magic \<or> take (length magic) sig \<noteq> magic \<longrightarrow>
      validate_data magic eng rel_path type content sig pub_keys = (Inl G_FILE_ERROR_INVAL, []))
   \<and> (\<not> (length sig < length magic \<or> take (length magic) sig \<noteq> magic)
        \<and> make_sign_blob rel_path type content = Inr (to_sign, n) \<longrightarrow>
      (\<forall>ks k rest.
          pub_keys = ks @ k # rest
          \<and> (\<forall>j<length ks. trial_mismatch eng j (ks ! j) (drop (length magic) sig) to_sign)
          \<and> trial_validates eng (length ks) k (drop (length magic) sig) to_sign \<longrightarrow>
          validate_data magic eng rel_path type content sig pub_keys = (Inr True, ks @ [k]))
      \<and> (\<forall>ks k rest.
          pub_keys = ks @ k # rest
          \<and> (\<forall>j<length ks. trial_mismatch eng j (ks ! j) (drop (length magic) sig) to_sign)
          \<and> trial_hard_error eng (length ks) k (drop (length magic) sig) to_sign \<longrightarrow>
          validate_data magic eng rel_path type content sig pub_keys
            = (Inl G_FILE_ERROR_FAILED, ks @ [k]))
      \<and> ((\<forall>j<length pub_keys.
             trial_mismatch eng j (pub_keys ! j) (drop (length magic) sig) to_sign) \<longrightarrow>
          validate_data magic eng rel_path type content sig pub_keys = (Inr False, pub_keys)))
   \<and> (\<not> (length sig < length magic \<or> take (length magic) sig \<noteq> magic)
        \<and> make_sign_blob rel_path type content = Inl e \<longrightarrow>
      validate_data magic eng rel_path type content sig pub_keys = (Inl e, []))"
proof (intro conjI impI allI)
  assume "length sig < length magic \<or> take (length magic) sig \<noteq> magic"
  then show "validate_data magic eng rel_path type content sig pub_keys = (Inl G_FILE_ERROR_INVAL, [])"
    by (auto simp: validate_data_def)
next
  fix ks k rest
  assume a: "\<not> (length sig < length magic \<or> take (length magic) sig \<noteq> magic)
      \<and> make_sign_blob rel_path type content = Inr (to_sign, n)"
    and b: "pub_keys = ks @ k # rest
      \<and> (\<forall>j<length ks. trial_mismatch eng j (ks ! j) (drop (length magic) sig) to_sign)
      \<and> trial_validates eng (length ks) k (drop (length magic) sig) to_sign"
  from a have v: "validate_data magic eng rel_path type content sig pub_keys
      = validate_data_loop eng (drop (length magic) sig) to_sign 0 pub_keys"
    by (intro validate_data_stripped) simp_all
  from b have "\<forall>j<length ks. trial_mismatch eng (0 + j) (ks ! j) (drop (length magic) sig) to_sign"
    by simp
  from validate_data_loop_mismatches [OF this, of "k # rest"] b
  show "validate_data magic eng rel_path type content sig pub_keys = (Inr True, ks @ [k])"
    unfolding v by (simp add: validate_data_loop_validates del: validate_data_loop.simps)
next
  fix ks k rest
  assume a: "\<not> (length sig < length magic \<or> take (length magic) sig \<noteq> magic)
      \<and> make_sign_blob rel_path type content = Inr (to_sign, n)"
    and b: "pub_keys = ks @ k # rest
      \<and> (\<forall>j<length ks. trial_mismatch eng j (ks ! j) (drop (length magic) sig) to_sign)
      \<and> trial_hard_error eng (length ks) k (drop (length magic) sig) to_sign"
  from a have v: "validate_data magic eng rel_path type content sig pub_keys
      = validate_data_loop eng (drop (length magic) sig) to_sign 0 pub_keys"
    by (intro validate_data_stripped) simp_all
  from b have "\<forall>j<length ks. trial_mismatch eng (0 + j) (ks ! j) (drop (length magic) sig) to_sign"
    by simp
  from validate_data_loop_mismatches [OF this, of "k # rest"] b
  show "validate_data magic eng rel_path type content sig pub_keys
      = (Inl G_FILE_ERROR_FAILED, ks @ [k])"
    unfolding v by (simp add: validate_data_loop_hard_error del: validate_data_loop.simps)
next
  assume a: "\<not> (length sig < length magic \<or> take (length magic) sig \<noteq> magic)
      \<and> make_sign_blob rel_path type content = Inr (to_sign, n)"
    and b: "\<forall>j<length pub_keys.
      trial_mismatch eng j (pub_keys ! j) (drop (length magic) sig) to_sign"
  from a have v: "validate_data magic eng rel_path type content sig pub_keys
      = validate_data_loop eng (drop (length magic) sig) to_sign 0 pub_keys"
    by (intro validate_data_stripped) simp_all
  from b have "\<forall>j<length pub_keys.
      trial_mismatch eng (0 + j) (pub_keys ! j) (drop (length magic) sig) to_sign"
    by simp
  from validate_data_loop_mismatches [OF this, of "[]"]
  show "validate_data magic eng rel_path type content sig pub_keys = (Inr False, pub_keys)"
    unfolding v by simp
next
  assume "\<not> (length sig < length magic \<or> take (length magic) sig \<noteq> magic)
      \<and> make_sign_blob rel_path type content = Inl e"
  then show "validate_data magic eng rel_path type content sig pub_keys = (Inl e, [])"
    by (simp add: validate_data_def)
qed


theorem validate_data_outcomes_witness:
  "validate_data ''SIG1'' demo_engine ''a/b'' S_IFREG ''xyz'' ''SI'' [CHR ''B'', CHR ''A'']
     = (Inl G_FILE_ERROR_INVAL, [])
   \<and> validate_data ''SIG1'' demo_engine ''a/b'' S_IFREG ''xyz''
       (''SIG2'' @ CHR ''A'' # CHR 0x00 # ''a/b'' @ CHR 0x00 # ''xyz'') [CHR ''B'', CHR ''A'']
     = (Inl G_FILE_ERROR_INVAL, [])
   \<and> validate_data ''SIG1'' demo_engine ''a/b'' S_IFREG ''xyz''
       (''SIG1'' @ CHR ''A'' # CHR 0x00 # ''a/b'' @ CHR 0x00 # ''xyz'') [CHR ''B'', CHR ''A'', CHR ''X'']
     = (Inr True, [CHR ''B'', CHR ''A''])
   \<and> validate_data ''SIG1'' demo_engine ''a/b'' S_IFREG ''xyz''
       (''SIG1'' @ CHR ''A'' # CHR 0x00 # ''a/b'' @ CHR 0x00 # ''xyz'') [CHR ''B'', CHR ''X'', CHR ''A'']
     = (Inl G_FILE_ERROR_FAILED, [CHR ''B'', CHR ''X''])
   \<and> validate_data ''SIG1'' demo_engine ''a/b'' S_IFREG ''xyz''
       (''SIG1'' @ CHR ''A'' # CHR 0x00 # ''a/b'' @ CHR 0x00 # ''xyz'') [CHR ''B'', CHR ''C'']
     = (Inr False, [CHR ''B'', CHR ''C''])"
proof -
  let ?blob = "CHR 0x00 # ''a/b'' @ CHR 0x00 # ''xyz''"
  let ?sig = "''SIG1'' @ CHR ''A'' # ?blob"
  note T = validate_data_outcomes [where magic = "''SIG1''" and eng = demo_engine
      and rel_path = "''a/b''" and type = S_IFREG and content = "''xyz''"]
  have blob: "make_sign_blob ''a/b'' S_IFREG ''xyz'' = Inr (?blob, 8)"
    by (simp add: make_sign_blob_layout cstr_def strlen_def)
  have pre: "\<not> (length ?sig < length ''SIG1'' \<or> take (length ''SIG1'') ?sig \<noteq> ''SIG1'')
      \<and> make_sign_blob ''a/b'' S_IFREG ''xyz'' = Inr (?blob, 8)"
    using blob by simp
  have B: "trial_mismatch demo_engine 0 (CHR ''B'') (drop (length ''SIG1'') ?sig) ?blob"
    and C: "trial_mismatch demo_engine (Suc 0) (CHR ''C'') (drop (length ''SIG1'') ?sig) ?blob"
    and A: "trial_validates demo_engine (Suc 0) (CHR ''A'') (drop (length ''SIG1'') ?sig) ?blob"
    and X: "trial_hard_error demo_engine (Suc 0) (CHR ''X'') (drop (length ''SIG1'') ?sig) ?blob"
    by (simp_all add: trial_mismatch_def trial_validates_def trial_hard_error_def demo_engine_def)
  have 1: "validate_data ''SIG1'' demo_engine ''a/b'' S_IFREG ''xyz'' ''SI'' [CHR ''B'', CHR ''A'']
      = (Inl G_FILE_ERROR_INVAL, [])"
    using T [where sig = "''SI''" and pub_keys = "[CHR ''B'', CHR ''A'']", THEN conjunct1] by simp
  have 2: "validate_data ''SIG1'' demo_engine ''a/b'' S_IFREG ''xyz''
       (''SIG2'' @ CHR ''A'' # ?blob) [CHR ''B'', CHR ''A''] = (Inl G_FILE_ERROR_INVAL, [])"
    using T [where sig = "''SIG2'' @ CHR ''A'' # ?blob" and pub_keys = "[CHR ''B'', CHR ''A'']",
        THEN conjunct1] by simp
  have 3: "validate_data ''SIG1'' demo_engine ''a/b'' S_IFREG ''xyz'' ?sig
       [CHR ''B'', CHR ''A'', CHR ''X''] = (Inr True, [CHR ''B''] @ [CHR ''A''])"
    using B A
    by (intro T [where sig = ?sig and to_sign = ?blob and n = 8
            and pub_keys = "[CHR ''B'', CHR ''A'', CHR ''X'']",
          THEN conjunct2, THEN conjunct1, THEN mp, OF pre, THEN conjunct1,
          THEN spec [where x = "[CHR ''B'']"], THEN spec [where x = "CHR ''A''"],
          THEN spec [where x = "[CHR ''X'']"], THEN mp]) simp
  have 4: "validate_data ''SIG1'' demo_engine ''a/b'' S_IFREG ''xyz'' ?sig
       [CHR ''B'', CHR ''X'', CHR ''A''] = (Inl G_FILE_ERROR_FAILED, [CHR ''B''] @ [CHR ''X''])"
    using B X
    by (intro T [where sig = ?sig and to_sign = ?blob and n = 8
            and pub_keys = "[CHR ''B'', CHR ''X'', CHR ''A'']",
          THEN conjunct2, THEN conjunct1, THEN mp, OF pre, THEN conjunct2, THEN conjunct1,
          THEN spec [where x = "[CHR ''B'']"], THEN spec [where x = "CHR ''X''"],
          THEN spec [where x = "[CHR ''A'']"], THEN mp]) simp
  have 5: "validate_data ''SIG1'' demo_engine ''a/b'' S_IFREG ''xyz'' ?sig
       [CHR ''B'', CHR ''C''] = (Inr False, [CHR ''B'', CHR ''C''])"
    using B C
    by (intro T [where sig = ?sig and to_sign = ?blob and n = 8
            and pub_keys = "[CHR ''B'', CHR ''C'']",
          THEN conjunct2, THEN conjunct1, THEN mp, OF pre, THEN conjunct2, THEN conjunct2, THEN mp])
      (simp add: less_Suc_eq)
  from 1 2 3 4 5 show ?thesis by simp
qed


text \<open>
  Claim C2, as amended. What \<open>sign_data\<close> returns is the marker followed by the bytes
  the engine wrote over the blob. \<open>validate_data\<close>, given the same type, path and
  content, strips exactly the marker, builds the same blob and returns \<open>TRUE\<close>, when
  the public key of the signing key is among the trusted keys, the engine verifies what
  it signs, the context and the verification for that key can be set up, and no key
  tried before it makes the engine fail.
\<close>

theorem sign_validate_round_trip:
  assumes "sign_data magic eng type rel_path content sk = Inr envelope"
    and "make_sign_blob rel_path type content = Inr (to_sign, n)"
    and "pub_keys = ks @ pk # rest"
    and "verifies_what_it_signs eng sk pk"
    and "EVP_MD_CTX_new eng (length ks)" and "EVP_DigestVerifyInit eng pk \<noteq> 0"
    and "\<forall>j<length ks. \<not> trial_hard_error eng j (ks ! j) (drop (length magic) envelope) to_sign"
  shows "fst (validate_data magic eng rel_path type content envelope pub_keys) = Inr True
    \<and> take (length magic) envelope = magic
    \<and> (\<exists>cap. EVP_DigestSign eng sk cap to_sign = Some (drop (length magic) envelope))"
proof -
  from sign_data_envelope [OF assms(1)] assms(2)
  obtain cap written where w: "EVP_DigestSign eng sk cap to_sign = Some written"
    and e: "envelope = magic @ written" by auto
  from e have m: "\<not> (length envelope < length magic \<or> take (length magic) envelope \<noteq> magic)"
    and d: "drop (length magic) envelope = written" by simp_all
  from w assms(4) have "EVP_DigestVerify eng pk written to_sign = 1"
    by (auto simp: verifies_what_it_signs_def)
  with assms(5,6) have v: "trial_validates eng (0 + length ks) pk written to_sign"
    by (simp add: trial_validates_def)
  from assms(7) d have "\<forall>j<length ks. \<not> trial_hard_error eng (0 + j) (ks ! j) written to_sign"
    by simp
  from validate_data_loop_no_hard_error [OF this v]
  have "fst (validate_data_loop eng written to_sign 0 (ks @ pk # rest)) = Inr True" .
  with validate_data_stripped [OF m assms(2), of eng pub_keys] d assms(3)
  have "fst (validate_data magic eng rel_path type content envelope pub_keys) = Inr True"
    by simp
  with e d w show ?thesis by auto
qed

theorem sign_validate_round_trip_witness:
  "sign_data ''SIG1'' demo_engine S_IFLNK ''a/b'' ''target'' (CHR ''A'')
     = Inr (''SIG1'' @ CHR ''A'' # CHR 0x01 # ''a/b'' @ CHR 0x00 # ''target'')
   \<and> verifies_what_it_signs demo_engine (CHR ''A'') (CHR ''A'')
   \<and> fst (validate_data ''SIG1'' demo_engine ''a/b'' S_IFLNK ''target''
            (''SIG1'' @ CHR ''A'' # CHR 0x01 # ''a/b'' @ CHR 0x00 # ''target'')
            [CHR ''B'', CHR ''A'']) = Inr True"
proof -
  let ?blob = "CHR 0x01 # ''a/b'' @ CHR 0x00 # ''target''"
  have blob: "make_sign_blob ''a/b'' S_IFLNK ''target'' = Inr (?blob, 11)"
    by (simp add: make_sign_blob_layout cstr_def strlen_def S_IF_distinct)
  have s: "sign_data ''SIG1'' demo_engine S_IFLNK ''a/b'' ''target'' (CHR ''A'')
      = Inr (''SIG1'' @ CHR ''A'' # ?blob)"
    by (simp add: sign_data_def blob demo_engine_def VALIDATOR_SIGNATURE_MAGIC_LEN_def
        g_malloc_def memcpy_def)
  have v: "verifies_what_it_signs demo_engine (CHR ''A'') (CHR ''A'')"
    by (auto simp: verifies_what_it_signs_def demo_engine_def split: if_splits)
  have c: "EVP_MD_CTX_new demo_engine (length [CHR ''B''])"
    "EVP_DigestVerifyInit demo_engine (CHR ''A'') \<noteq> 0"
    by (simp_all add: demo_engine_def)
  have h: "\<forall>j<length [CHR ''B'']. \<not> trial_hard_error demo_engine j ([CHR ''B''] ! j)
      (drop (length ''SIG1'') (''SIG1'' @ CHR ''A'' # ?blob)) ?blob"
    by (simp add: trial_hard_error_def demo_engine_def)
  from sign_validate_round_trip [OF s blob _ v c h, of "[CHR ''B'', CHR ''A'']" "[]"] s v
  show ?thesis by simp
qed

text \<open>
  Claim C2 as it was stated fails where a trusted key that comes before the signer's
  makes the engine fail: \<open>validate_data\<close> returns at that key with an error, and the
  signer's key is never tried.
\<close>

theorem sign_validate_round_trip_counterexample:
  "sign_data ''SIG1'' demo_engine S_IFREG ''a/b'' ''xyz'' (CHR ''A'')
     = Inr (''SIG1'' @ CHR ''A'' # CHR 0x00 # ''a/b'' @ CHR 0x00 # ''xyz'')
   \<and> verifies_what_it_signs demo_engine (CHR ''A'') (CHR ''A'')
   \<and> CHR ''A'' \<in> set [CHR ''X'', CHR ''A'']
   \<and> validate_data ''SIG1'' demo_engine ''a/b'' S_IFREG ''xyz''
        (''SIG1'' @ CHR ''A'' # CHR 0x00 # ''a/b'' @ CHR 0x00 # ''xyz'') [CHR ''X'', CHR ''A'']
       = (Inl G_FILE_ERROR_FAILED, [CHR ''X''])"
proof -
  let ?blob = "CHR 0x00 # ''a/b'' @ CHR 0x00 # ''xyz''"
  have blob: "make_sign_blob ''a/b'' S_IFREG ''xyz'' = Inr (?blob, 8)"
    by (simp add: make_sign_blob_layout cstr_def strlen_def)
  have s: "sign_data ''SIG1'' demo_engine S_IFREG ''a/b'' ''xyz'' (CHR ''A'')
      = Inr (''SIG1'' @ CHR ''A'' # ?blob)"
    by (simp add: sign_data_def blob demo_engine_def VALIDATOR_SIGNATURE_MAGIC_LEN_def
        g_malloc_def memcpy_def)
  have v: "verifies_what_it_signs demo_engine (CHR ''A'') (CHR ''A'')"
    by (auto simp: verifies_what_it_signs_def demo_engine_def split: if_splits)
  have "validate_data ''SIG1'' demo_engine ''a/b'' S_IFREG ''xyz''
        (''SIG1'' @ CHR ''A'' # ?blob) [CHR ''X'', CHR ''A''] = (Inl G_FILE_ERROR_FAILED, [CHR ''X''])"
    by (simp add: validate_data_def blob demo_engine_def VALIDATOR_SIGNATURE_MAGIC_LEN_def)
  with s v show ?thesis by simp
qed

section \<open>Loading the trusted keys\<close>

lemma load_pub_keys_loop_order:
  "load_pub_keys_loop dir keys = Inr ks \<Longrightarrow> ks = rev (enumerated_keys dir) @ keys"
proof (induction dir arbitrary: keys)
  case Nil
  then show ?case by (simp add: enumerated_keys_def List.map_filter_simps)
next
  case (Cons entry dir)
  obtain filename kf where entry: "entry = (filename, kf)" by (cases entry)
  show ?case
  proof (cases "load_pub_key kf")
    case (Inl e)
    with Cons.prems entry have "load_pub_keys_loop dir keys = Inr ks"
      by (simp split: if_splits)
    from Cons.IH [OF this] Inl entry show ?thesis
      by (simp add: enumerated_keys_def List.map_filter_simps)
  next
    case (Inr k)
    with Cons.prems entry have "load_pub_keys_loop dir (k # keys) = Inr ks" by simp
    from Cons.IH [OF this] Inr entry show ?thesis
      by (simp add: enumerated_keys_def List.map_filter_simps)
  qed
qed

lemma load_pub_keys_loop_succeeds:
  "(\<exists>ks. load_pub_keys_loop dir keys = Inr ks) \<longleftrightarrow> (\<forall>(filename, file) \<in> set dir. skipped_or_loaded file)"
proof (induction dir arbitrary: keys)
  case Nil
  then show ?case by simp
next
  case (Cons entry dir)
  obtain filename kf where entry: "entry = (filename, kf)" by (cases entry)
  show ?case
    using Cons.IH by (cases "load_pub_key kf") (auto simp: entry skipped_or_loaded_def)
qed

lemma load_pub_keys_loop_skips:
  "\<not> (e \<noteq> G_FILE_ERROR_NOENT \<and> e \<noteq> G_FILE_ERROR_ISDIR) \<Longrightarrow> load_pub_key file = Inl e \<Longrightarrow>
     load_pub_keys_loop (before @ (filename, file) # after) keys
       = load_pub_keys_loop (before @ after) keys"
proof (induction before arbitrary: keys)
  case Nil
  then show ?case by auto
next
  case (Cons entry before)
  obtain filename' file' where entry: "entry = (filename', file')" by (cases entry)
  show ?case
    using Cons.IH [OF Cons.prems] by (cases "load_pub_key file'") (simp_all add: entry)
qed

lemma load_pub_keys_loop_fatal:
  "\<forall>(filename, file) \<in> set before. skipped_or_loaded file \<Longrightarrow>
   load_pub_key file = Inl e \<Longrightarrow> e \<noteq> G_FILE_ERROR_NOENT \<Longrightarrow> e \<noteq> G_FILE_ERROR_ISDIR \<Longrightarrow>
     load_pub_keys_loop (before @ (filename, file) # after) keys = Inl e"
proof (induction before arbitrary: keys)
  case Nil
  then show ?case by simp
next
  case (Cons entry before)
  obtain filename' file' where entry: "entry = (filename', file')" by (cases entry)
  from Cons.prems(1) have "\<forall>(filename, file) \<in> set before. skipped_or_loaded file"
    and s: "skipped_or_loaded file'" by (auto simp: entry)
  from Cons.IH [OF this(1) Cons.prems(2-4)] s show ?case
    by (cases "load_pub_key file'") (auto simp: entry skipped_or_loaded_def)
qed

text \<open>
  Claim C6, as amended. A key directory that does not exist gives no keys and success.
  In a directory that opens, a file is skipped when loading it fails with the error of
  a missing file or of a directory; the load succeeds if and only if every file either
  loads or is skipped so. Any other failure of a file is fatal: the load returns that
  error. A file that opens and does not parse as a key fails with
  \<open>G_FILE_ERROR_INVAL\<close>, so it is fatal too.
\<close>

theorem load_pub_keys_from_dir_failures:
  "load_pub_keys_from_dir (Inl G_FILE_ERROR_NOENT) = (Inr [] :: g_file_error + 'k list)
   \<and> ((\<exists>keys. load_pub_keys_from_dir (Inr dir) = Inr keys)
        \<longleftrightarrow> (\<forall>(filename, file) \<in> set dir. skipped_or_loaded (file :: 'k key_file)))
   \<and> (\<forall>before filename file after e.
         dir = before @ (filename, file) # after \<and> load_pub_key file = Inl e
         \<and> (e = G_FILE_ERROR_NOENT \<or> e = G_FILE_ERROR_ISDIR) \<longrightarrow>
         load_pub_keys_from_dir (Inr dir) = load_pub_keys_from_dir (Inr (before @ after)))
   \<and> (\<forall>before filename file after e.
         dir = before @ (filename, file) # after
         \<and> (\<forall>(filename', file') \<in> set before. skipped_or_loaded file')
         \<and> load_pub_key file = Inl e \<and> e \<noteq> G_FILE_ERROR_NOENT \<and> e \<noteq> G_FILE_ERROR_ISDIR \<longrightarrow>
         load_pub_keys_from_dir (Inr dir) = Inl e)
   \<and> (\<forall>file :: 'k key_file. fopen_error file = None \<and> PEM_read_PUBKEY file = None \<longrightarrow>
         load_pub_key file = Inl G_FILE_ERROR_INVAL)"
proof (intro conjI allI impI)
  show "load_pub_keys_from_dir (Inl G_FILE_ERROR_NOENT) = (Inr [] :: g_file_error + 'k list)"
    by (simp add: load_pub_keys_from_dir_def)
next
  show "(\<exists>keys. load_pub_keys_from_dir (Inr dir) = Inr keys)
      \<longleftrightarrow> (\<forall>(filename, file) \<in> set dir. skipped_or_loaded file)"
    by (simp add: load_pub_keys_from_dir_def load_pub_keys_loop_succeeds)
next
  fix before filename and kf :: "'k key_file" and after e
  assume "dir = before @ (filename, kf) # after \<and> load_pub_key kf = Inl e
    \<and> (e = G_FILE_ERROR_NOENT \<or> e = G_FILE_ERROR_ISDIR)"
  then show "load_pub_keys_from_dir (Inr dir) = load_pub_keys_from_dir (Inr (before @ after))"
    using load_pub_keys_loop_skips [of e kf before filename after "[]"]
    by (auto simp: load_pub_keys_from_dir_def)
next
  fix before filename and kf :: "'k key_file" and after e
  assume "dir = before @ (filename, kf) # after
    \<and> (\<forall>(filename', file') \<in> set before. skipped_or_loaded file')
    \<and> load_pub_key kf = Inl e \<and> e \<noteq> G_FILE_ERROR_NOENT \<and> e \<noteq> G_FILE_ERROR_ISDIR"
  then show "load_pub_keys_from_dir (Inr dir) = Inl e"
    using load_pub_keys_loop_fatal [of before kf e filename after "[]"]
    by (simp add: load_pub_keys_from_dir_def)
next
  fix kf :: "'k key_file"
  assume "fopen_error kf = None \<and> PEM_read_PUBKEY kf = None"
  then show "load_pub_key kf = Inl G_FILE_ERROR_INVAL"
    by (simp add: load_pub_key_def)
qed


theorem load_pub_keys_from_dir_failures_witness:
  "load_pub_keys_from_dir (Inl G_FILE_ERROR_NOENT) = (Inr [] :: g_file_error + byte list)
   \<and> load_pub_keys_from_dir
         (Inr [(''a.pem'', \<lparr>fopen_error = None, PEM_read_PUBKEY = Some (CHR ''A'')\<rparr>),
               (''old'', \<lparr>fopen_error = Some G_FILE_ERROR_ISDIR, PEM_read_PUBKEY = None\<rparr>),
               (''b.pem'', \<lparr>fopen_error = None, PEM_read_PUBKEY = Some (CHR ''B'')\<rparr>)])
       = load_pub_keys_from_dir
         (Inr [(''a.pem'', \<lparr>fopen_error = None, PEM_read_PUBKEY = Some (CHR ''A'')\<rparr>),
               (''b.pem'', \<lparr>fopen_error = None, PEM_read_PUBKEY = Some (CHR ''B'')\<rparr>)])
   \<and> load_pub_keys_from_dir
         (Inr [(''a.pem'', \<lparr>fopen_error = None, PEM_read_PUBKEY = Some (CHR ''A'')\<rparr>),
               (''locked'', \<lparr>fopen_error = Some (G_FILE_ERROR_errno 13), PEM_read_PUBKEY = None\<rparr>),
               (''b.pem'', \<lparr>fopen_error = None, PEM_read_PUBKEY = Some (CHR ''B'')\<rparr>)])
       = Inl (G_FILE_ERROR_errno 13)
   \<and> load_pub_key \<lparr>fopen_error = None, PEM_read_PUBKEY = (None :: byte option)\<rparr>
       = Inl G_FILE_ERROR_INVAL"
proof -
  let ?a = "(''a.pem'', \<lparr>fopen_error = None, PEM_read_PUBKEY = Some (CHR ''A'')\<rparr>)"
  let ?b = "(''b.pem'', \<lparr>fopen_error = None, PEM_read_PUBKEY = Some (CHR ''B'')\<rparr>)"
  let ?old = "\<lparr>fopen_error = Some G_FILE_ERROR_ISDIR, PEM_read_PUBKEY = (None :: byte option)\<rparr>"
  let ?locked = "\<lparr>fopen_error = Some (G_FILE_ERROR_errno 13), PEM_read_PUBKEY = (None :: byte option)\<rparr>"
  let ?text = "\<lparr>fopen_error = None, PEM_read_PUBKEY = (None :: byte option)\<rparr>"
  note T = load_pub_keys_from_dir_failures [where ?'k = byte]
  have 1: "load_pub_keys_from_dir (Inl G_FILE_ERROR_NOENT) = (Inr [] :: g_file_error + byte list)"
    using T [THEN conjunct1] .
  have 2: "load_pub_keys_from_dir (Inr [?a, (''old'', ?old), ?b])
      = load_pub_keys_from_dir (Inr ([?a] @ [?b]))"
    by (intro T [where dir = "[?a, (''old'', ?old), ?b]",
          THEN conjunct2, THEN conjunct2, THEN conjunct1,
          THEN spec [where x = "[?a]"], THEN spec [where x = "''old''"],
          THEN spec [where x = ?old], THEN spec [where x = "[?b]"],
          THEN spec [where x = G_FILE_ERROR_ISDIR], THEN mp])
      (simp add: load_pub_key_def)
  have 3: "load_pub_keys_from_dir (Inr [?a, (''locked'', ?locked), ?b]) = Inl (G_FILE_ERROR_errno 13)"
    by (intro T [where dir = "[?a, (''locked'', ?locked), ?b]",
          THEN conjunct2, THEN conjunct2, THEN conjunct2, THEN conjunct1,
          THEN spec [where x = "[?a]"], THEN spec [where x = "''locked''"],
          THEN spec [where x = ?locked], THEN spec [where x = "[?b]"],
          THEN spec [where x = "G_FILE_ERROR_errno 13"], THEN mp])
      (simp add: load_pub_key_def skipped_or_loaded_def)
  have 4: "load_pub_key ?text = Inl G_FILE_ERROR_INVAL"
    by (intro T [THEN conjunct2, THEN conjunct2, THEN conjunct2, THEN conjunct2,
          THEN spec [where x = ?text], THEN mp]) simp
  from 1 2 3 4 show ?thesis by simp
qed

text \<open>
  Claim C6 as it was stated fails on a file that opens and is not a key: it is not
  skipped, the whole load fails, although the directory holds a key.
\<close>

theorem load_pub_keys_from_dir_failures_counterexample:
  "load_pub_keys_from_dir
     (Inr [(''a.pem'', \<lparr>fopen_error = None, PEM_read_PUBKEY = Some (CHR ''A'')\<rparr>),
           (''README'', \<lparr>fopen_error = None, PEM_read_PUBKEY = None\<rparr>)])
   = Inl G_FILE_ERROR_INVAL"
  by (simp add: load_pub_keys_from_dir_def load_pub_key_def)

text \<open>
  Claim C7, as amended. \<open>load_pub_keys_from_dir\<close> puts each key it loads in front of
  those loaded before, and does not reverse the list at the end: the collection it
  returns holds the keys of the entries that load in the reverse of the order of
  enumeration, the key of the first such entry last. This is the order in which
  \<open>validate_data\<close> tries the keys.
\<close>

theorem load_pub_keys_from_dir_order:
  assumes "load_pub_keys_from_dir (Inr dir) = Inr keys"
  shows "keys = rev (enumerated_keys dir)"
  using assms load_pub_keys_loop_order [of dir "[]" keys]
  by (simp add: load_pub_keys_from_dir_def)

theorem load_pub_keys_from_dir_order_witness:
  "load_pub_keys_from_dir
     (Inr [(''a.pem'', \<lparr>fopen_error = None, PEM_read_PUBKEY = Some (CHR ''A'')\<rparr>),
           (''b.pem'', \<lparr>fopen_error = None, PEM_read_PUBKEY = Some (CHR ''B'')\<rparr>),
           (''c.pem'', \<lparr>fopen_error = None, PEM_read_PUBKEY = Some (CHR ''C'')\<rparr>)])
     = Inr [CHR ''C'', CHR ''B'', CHR ''A'']
   \<and> [CHR ''C'', CHR ''B'', CHR ''A'']
     = rev (enumerated_keys
         [(''a.pem'', \<lparr>fopen_error = None, PEM_read_PUBKEY = Some (CHR ''A'')\<rparr>),
          (''b.pem'', \<lparr>fopen_error = None, PEM_read_PUBKEY = Some (CHR ''B'')\<rparr>),
          (''c.pem'', \<lparr>fopen_error = None, PEM_read_PUBKEY = Some (CHR ''C'')\<rparr>)])"
proof -
  let ?dir = "[(''a.pem'', \<lparr>fopen_error = None, PEM_read_PUBKEY = Some (CHR ''A'')\<rparr>),
          (''b.pem'', \<lparr>fopen_error = None, PEM_read_PUBKEY = Some (CHR ''B'')\<rparr>),
          (''c.pem'', \<lparr>fopen_error = None, PEM_read_PUBKEY = Some (CHR ''C'')\<rparr>)]"
  have l: "load_pub_keys_from_dir (Inr ?dir) = Inr [CHR ''C'', CHR ''B'', CHR ''A'']"
    by (simp add: load_pub_keys_from_dir_def load_pub_key_def)
  from load_pub_keys_from_dir_order [OF l] l show ?thesis by simp
qed

text \<open>
  Claim C7 as it was stated fails on any directory with two keys: the key of the first
  entry is the last of the collection.
\<close>

theorem load_pub_keys_from_dir_order_counterexample:
  "enumerated_keys
     [(''a.pem'', \<lparr>fopen_error = None, PEM_read_PUBKEY = Some (CHR ''A'')\<rparr>),
      (''b.pem'', \<lparr>fopen_error = None, PEM_read_PUBKEY = Some (CHR ''B'')\<rparr>)]
     = [CHR ''A'', CHR ''B'']
   \<and> load_pub_keys_from_dir
     (Inr [(''a.pem'', \<lparr>fopen_error = None, PEM_read_PUBKEY = Some (CHR ''A'')\<rparr>),
           (''b.pem'', \<lparr>fopen_error = None, PEM_read_PUBKEY = Some (CHR ''B'')\<rparr>)])
     = Inr [CHR ''B'', CHR ''A'']"
  by (simp add: load_pub_keys_from_dir_def load_pub_key_def enumerated_keys_def
      List.map_filter_simps)

section \<open>The walks\<close>

lemma sign_children_eq:
  "sign_children env path relative_to children success =
     (success \<and> (\<forall>(child, n) \<in> set (visited_children children).
                   fst (sign env (g_build_filename path child) relative_to n)),
      concat (map (\<lambda>(child, n). snd (sign env (g_build_filename path child) relative_to n))
                (visited_children children)))"
proof (induction children arbitrary: success)
  case Nil
  then show ?case by (simp add: visited_children_def)
next
  case (Cons entry children)
  obtain child n where entry: "entry = (child, n)" by (cases entry)
  show ?case
    by (cases "sign env (g_build_filename path child) relative_to n")
      (auto simp: entry Cons.IH visited_children_def)
qed

lemma validate_children_eq:
  "validate_children env path relative_to children success =
     (success \<and> (\<forall>(child, n) \<in> set (visited_children children).
                   fst (validate env (g_build_filename path child) relative_to n)),
      concat (map (\<lambda>(child, n). snd (validate env (g_build_filename path child) relative_to n))
                (visited_children children)))"
proof (induction children arbitrary: success)
  case Nil
  then show ?case by (simp add: visited_children_def)
next
  case (Cons entry children)
  obtain child n where entry: "entry = (child, n)" by (cases entry)
  show ?case
    by (cases "validate env (g_build_filename path child) relative_to n")
      (auto simp: entry Cons.IH visited_children_def)
qed

lemma sign_directory:
  assumes "st_mode AND S_IFMT = S_IFDIR"
  shows "sign env path relative_to (Node (Some st_mode) leaf None children) =
     ((\<forall>(child, n) \<in> set (visited_children children).
          fst (sign env (g_build_filename path child) relative_to n)),
      path # concat (map (\<lambda>(child, n). snd (sign env (g_build_filename path child) relative_to n))
                (visited_children children)))"
  using assms by (simp add: S_IF_distinct sign_children_eq)

lemma validate_directory:
  assumes "st_mode AND S_IFMT = S_IFDIR"
  shows "validate env path relative_to (Node (Some st_mode) leaf None children) =
     ((\<forall>(child, n) \<in> set (visited_children children).
          fst (validate env (g_build_filename path child) relative_to n)),
      path # concat (map (\<lambda>(child, n). snd (validate env (g_build_filename path child) relative_to n))
                (visited_children children)))"
  using assms by (simp add: S_IF_distinct validate_children_eq)

lemma cmd_sign_loop_Cons:
  "cmd_sign_loop env (a # argv) res =
     (if is_dir a \<and> \<not> opt_recursive env then (EXIT_FAILURE, [])
      else (fst (cmd_sign_loop env argv
                   (res \<and> fst (sign env (canonical a) (relative_root env a) (tree a)))),
            snd (sign env (canonical a) (relative_root env a) (tree a))
              @ snd (cmd_sign_loop env argv
                       (res \<and> fst (sign env (canonical a) (relative_root env a) (tree a))))))"
proof -
  have r: "(if \<not> ok then False else res) = (res \<and> ok)" for ok by simp
  show ?thesis
    by (cases "is_dir a") (simp_all add: relative_root_def r split: prod.splits)
qed

lemma cmd_sign_loop_status:
  "fst (cmd_sign_loop env argv res) = EXIT_SUCCESS \<longleftrightarrow>
     res \<and> (\<forall>a \<in> set argv. (is_dir a \<longrightarrow> opt_recursive env)
               \<and> fst (sign env (canonical a) (relative_root env a) (tree a)))"
proof (induction argv arbitrary: res)
  case Nil
  then show ?case by (simp add: EXIT_SUCCESS_def EXIT_FAILURE_def)
next
  case (Cons a argv)
  show ?case
    unfolding cmd_sign_loop_Cons using Cons.IH
    by (auto simp: EXIT_SUCCESS_def EXIT_FAILURE_def)
qed

lemma cmd_sign_loop_visited:
  "snd (cmd_sign_loop env argv res)
     = concat (map (\<lambda>a. snd (sign env (canonical a) (relative_root env a) (tree a)))
                (takeWhile (\<lambda>a. is_dir a \<longrightarrow> opt_recursive env) argv))"
proof (induction argv arbitrary: res)
  case Nil
  then show ?case by simp
next
  case (Cons a argv)
  show ?case
    unfolding cmd_sign_loop_Cons using Cons.IH by simp
qed

lemma cmd_validate_loop_Cons:
  "cmd_validate_loop env (a # argv) res =
     (if is_dir a \<and> \<not> opt_recursive env then (EXIT_FAILURE, [])
      else (fst (cmd_validate_loop env argv
                   (res \<and> fst (validate env (canonical a) (relative_root env a) (tree a)))),
            snd (validate env (canonical a) (relative_root env a) (tree a))
              @ snd (cmd_validate_loop env argv
                       (res \<and> fst (validate env (canonical a) (relative_root env a) (tree a))))))"
proof -
  have r: "(if \<not> ok then False else res) = (res \<and> ok)" for ok by simp
  show ?thesis
    by (cases "is_dir a") (simp_all add: relative_root_def r split: prod.splits)
qed

lemma cmd_validate_loop_status:
  "fst (cmd_validate_loop env argv res) = EXIT_SUCCESS \<longleftrightarrow>
     res \<and> (\<forall>a \<in> set argv. (is_dir a \<longrightarrow> opt_recursive env)
               \<and> fst (validate env (canonical a) (relative_root env a) (tree a)))"
proof (induction argv arbitrary: res)
  case Nil
  then show ?case by (simp add: EXIT_SUCCESS_def EXIT_FAILURE_def)
next
  case (Cons a argv)
  show ?case
    unfolding cmd_validate_loop_Cons using Cons.IH
    by (auto simp: EXIT_SUCCESS_def EXIT_FAILURE_def)
qed

lemma cmd_validate_loop_visited:
  "snd (cmd_validate_loop env argv res)
     = concat (map (\<lambda>a. snd (validate env (canonical a) (relative_root env a) (tree a)))
                (takeWhile (\<lambda>a. is_dir a \<longrightarrow> opt_recursive env) argv))"
proof (induction argv arbitrary: res)
  case Nil
  then show ?case by simp
next
  case (Cons a argv)
  show ?case
    unfolding cmd_validate_loop_Cons using Cons.IH by simp
qed

lemma cmd_sign_loop_exit:
  "fst (cmd_sign_loop env argv res) = EXIT_SUCCESS \<or> fst (cmd_sign_loop env argv res) = EXIT_FAILURE"
proof (induction argv arbitrary: res)
  case Nil
  then show ?case by simp
next
  case (Cons a argv)
  show ?case unfolding cmd_sign_loop_Cons using Cons.IH by simp
qed

lemma cmd_validate_loop_exit:
  "fst (cmd_validate_loop env argv res) = EXIT_SUCCESS
     \<or> fst (cmd_validate_loop env argv res) = EXIT_FAILURE"
proof (induction argv arbitrary: res)
  case Nil
  then show ?case by simp
next
  case (Cons a argv)
  show ?case unfolding cmd_validate_loop_Cons using Cons.IH by simp
qed

text \<open>The walks of the example files.\<close>

lemma demo_sign_data:
  "sign_data ''SIG1'' demo_engine S_IFREG p c k = Inr (''SIG1'' @ k # CHR 0x00 # cstr p @ NUL # c)"
  by (simp add: sign_data_def make_sign_blob_layout demo_engine_def strlen_def
      VALIDATOR_SIGNATURE_MAGIC_LEN_def g_malloc_def memcpy_def comp_def)

lemma demo_sign_regular:
  "has_path_prefix path relative_to \<Longrightarrow>
     sign demo_env path relative_to (regular_file d) = (True, [path])"
  by (simp add: regular_file_def S_IFMT_masks sign_leaf_def demo_env_def demo_io_def
      load_file_data_for_sign_def demo_relative_def demo_sign_data)

lemma demo_sign_unreadable:
  "sign demo_env path relative_to unreadable_file = (False, [path])"
  by (simp add: unreadable_file_def S_IFMT_masks sign_leaf_def demo_env_def demo_io_def
      load_file_data_for_sign_def)

lemma demo_validate_unsigned:
  "validate demo_env path relative_to (regular_file d) = (False, [path])"
  by (simp add: regular_file_def S_IFMT_masks validate_leaf_def demo_env_def demo_io_def)

lemma demo_validate_signed:
  "has_path_prefix path relative_to \<Longrightarrow>
     validate demo_env path relative_to
       (signed_file d (''SIG1'' @ CHR ''A'' # CHR 0x00 # cstr path @ NUL # d)) = (True, [path])"
  by (simp add: signed_file_def S_IFMT_masks validate_leaf_def demo_env_def demo_io_def
      load_file_data_for_sign_def demo_relative_def validate_data_def make_sign_blob_layout
      strlen_def VALIDATOR_SIGNATURE_MAGIC_LEN_def demo_engine_def)

lemma demo_sign_data_link:
  "sign_data ''SIG1'' demo_engine S_IFLNK p c k = Inr (''SIG1'' @ k # CHR 0x01 # cstr p @ NUL # c)"
  by (simp add: sign_data_def make_sign_blob_layout demo_engine_def strlen_def S_IF_distinct
      VALIDATOR_SIGNATURE_MAGIC_LEN_def g_malloc_def memcpy_def comp_def)

lemma demo_sign_symlink_no_recursion:
  "has_path_prefix path relative_to \<Longrightarrow>
     sign (demo_env \<lparr>opt_recursive := False\<rparr>) path relative_to (symlink_to target) = (True, [path])"
  by (simp add: symlink_to_def S_IFMT_masks sign_leaf_def demo_env_def demo_io_def
      load_file_data_for_sign_def demo_relative_def demo_sign_data_link S_IF_distinct)

lemma demo_sign_regular_no_recursion:
  "has_path_prefix path relative_to \<Longrightarrow>
     sign (demo_env \<lparr>opt_recursive := False\<rparr>) path relative_to (regular_file d) = (True, [path])"
  by (simp add: regular_file_def S_IFMT_masks sign_leaf_def demo_env_def demo_io_def
      load_file_data_for_sign_def demo_relative_def demo_sign_data)

text \<open>
  Claim C4, as amended. The result of a walk for a directory that opens is the
  conjunction of the results for the entries it visits, all entries but those with the
  signature suffix; and every one of them is walked, whatever the results of those
  before it: the trace of the directory is made of the traces of all of them, in order.
  A run walks its arguments in order up to the first one that \<open>g_file_test\<close> calls a
  directory while the recursive option is off: there it returns failure at once and
  the arguments after it are not walked. No result of a walk stops the run: the
  arguments before that one, all of them when there is none, are walked whatever the
  results of those before them. The exit status is success if and only if no argument
  is such a directory and the walk of every argument succeeds.
\<close>

theorem walk_aggregates:
  "(st_mode AND S_IFMT = S_IFDIR \<longrightarrow>
      sign env path relative_to (Node (Some st_mode) leaf None children)
        = ((\<forall>(child, n) \<in> set (visited_children children).
              fst (sign env (g_build_filename path child) relative_to n)),
           path # concat (map (\<lambda>(child, n). snd (sign env (g_build_filename path child) relative_to n))
                           (visited_children children)))
      \<and> validate env path relative_to (Node (Some st_mode) leaf None children)
        = ((\<forall>(child, n) \<in> set (visited_children children).
              fst (validate env (g_build_filename path child) relative_to n)),
           path # concat (map (\<lambda>(child, n). snd (validate env (g_build_filename path child) relative_to n))
                           (visited_children children))))
   \<and> (argv \<noteq> [] \<longrightarrow>
      (\<exists>status visited.
          cmd_sign env argv = Some (status, visited)
          \<and> (status = EXIT_SUCCESS \<or> status = EXIT_FAILURE)
          \<and> (status = EXIT_SUCCESS \<longleftrightarrow>
               (\<forall>a \<in> set argv. (is_dir a \<longrightarrow> opt_recursive env)
                  \<and> fst (sign env (canonical a) (relative_root env a) (tree a))))
          \<and> visited
               = concat (map (\<lambda>a. snd (sign env (canonical a) (relative_root env a) (tree a)))
                          (takeWhile (\<lambda>a. is_dir a \<longrightarrow> opt_recursive env) argv)))
      \<and> (\<exists>status visited.
          cmd_validate env argv = Some (status, visited)
          \<and> (status = EXIT_SUCCESS \<or> status = EXIT_FAILURE)
          \<and> (status = EXIT_SUCCESS \<longleftrightarrow>
               (\<forall>a \<in> set argv. (is_dir a \<longrightarrow> opt_recursive env)
                  \<and> fst (validate env (canonical a) (relative_root env a) (tree a))))
          \<and> visited
               = concat (map (\<lambda>a. snd (validate env (canonical a) (relative_root env a) (tree a)))
                          (takeWhile (\<lambda>a. is_dir a \<longrightarrow> opt_recursive env) argv))))"
proof (intro conjI impI)
  assume "st_mode AND S_IFMT = S_IFDIR"
  then show "sign env path relative_to (Node (Some st_mode) leaf None children)
        = ((\<forall>(child, n) \<in> set (visited_children children).
              fst (sign env (g_build_filename path child) relative_to n)),
           path # concat (map (\<lambda>(child, n). snd (sign env (g_build_filename path child) relative_to n))
                           (visited_children children)))"
    by (rule sign_directory)
next
  assume "st_mode AND S_IFMT = S_IFDIR"
  then show "validate env path relative_to (Node (Some st_mode) leaf None children)
        = ((\<forall>(child, n) \<in> set (visited_children children).
              fst (validate env (g_build_filename path child) relative_to n)),
           path # concat (map (\<lambda>(child, n). snd (validate env (g_build_filename path child) relative_to n))
                           (visited_children children)))"
    by (rule validate_directory)
next
  assume ne: "argv \<noteq> []"
  let ?r = "cmd_sign_loop env argv True"
  have "cmd_sign env argv = Some (fst ?r, snd ?r)" using ne by (simp add: cmd_sign_def)
  with cmd_sign_loop_exit [of env argv True] cmd_sign_loop_status [of env argv True]
    cmd_sign_loop_visited [of env argv True]
  show "\<exists>status visited.
          cmd_sign env argv = Some (status, visited)
          \<and> (status = EXIT_SUCCESS \<or> status = EXIT_FAILURE)
          \<and> (status = EXIT_SUCCESS \<longleftrightarrow>
               (\<forall>a \<in> set argv. (is_dir a \<longrightarrow> opt_recursive env)
                  \<and> fst (sign env (canonical a) (relative_root env a) (tree a))))
          \<and> visited
               = concat (map (\<lambda>a. snd (sign env (canonical a) (relative_root env a) (tree a)))
                          (takeWhile (\<lambda>a. is_dir a \<longrightarrow> opt_recursive env) argv))"
    by (intro exI [of _ "fst ?r"] exI [of _ "snd ?r"]) simp
next
  assume ne: "argv \<noteq> []"
  let ?r = "cmd_validate_loop env argv True"
  have "cmd_validate env argv = Some (fst ?r, snd ?r)" using ne by (simp add: cmd_validate_def)
  with cmd_validate_loop_exit [of env argv True] cmd_validate_loop_status [of env argv True]
    cmd_validate_loop_visited [of env argv True]
  show "\<exists>status visited.
          cmd_validate env argv = Some (status, visited)
          \<and> (status = EXIT_SUCCESS \<or> status = EXIT_FAILURE)
          \<and> (status = EXIT_SUCCESS \<longleftrightarrow>
               (\<forall>a \<in> set argv. (is_dir a \<longrightarrow> opt_recursive env)
                  \<and> fst (validate env (canonical a) (relative_root env a) (tree a))))
          \<and> visited
               = concat (map (\<lambda>a. snd (validate env (canonical a) (relative_root env a) (tree a)))
                          (takeWhile (\<lambda>a. is_dir a \<longrightarrow> opt_recursive env) argv))"
    by (intro exI [of _ "fst ?r"] exI [of _ "snd ?r"]) simp
qed


theorem walk_aggregates_witness:
  "sign demo_env ''/r'' ''/r''
     (directory [(''a'', regular_file ''d1''), (''b'', unreadable_file),
                 (''a.sig'', regular_file ''s''), (''c'', regular_file ''d3'')])
     = (False, [''/r'', ''/r/a'', ''/r/b'', ''/r/c''])
   \<and> validate demo_env ''/r'' ''/r''
     (directory [(''a'', regular_file ''d1''), (''a.sig'', regular_file ''s''),
                 (''c'', signed_file ''d3'' (''SIG1'' @ CHR ''A'' # CHR 0x00 # ''/r/c'' @ CHR 0x00 # ''d3''))])
     = (False, [''/r'', ''/r/a'', ''/r/c''])
   \<and> cmd_sign demo_env
     [\<lparr>canonical = ''/r/b'', is_dir = False, dirname = ''/r'', tree = unreadable_file\<rparr>,
      \<lparr>canonical = ''/r/c'', is_dir = False, dirname = ''/r'', tree = regular_file ''d3''\<rparr>]
     = Some (EXIT_FAILURE, [''/r/b'', ''/r/c''])
   \<and> cmd_validate demo_env
     [\<lparr>canonical = ''/r/a'', is_dir = False, dirname = ''/r'', tree = regular_file ''d1''\<rparr>,
      \<lparr>canonical = ''/r/c'', is_dir = False, dirname = ''/r'',
        tree = signed_file ''d3'' (''SIG1'' @ CHR ''A'' # CHR 0x00 # ''/r/c'' @ CHR 0x00 # ''d3'')\<rparr>]
     = Some (EXIT_FAILURE, [''/r/a'', ''/r/c''])
   \<and> cmd_sign (demo_env \<lparr>opt_recursive := False\<rparr>)
     [\<lparr>canonical = ''/r/c'', is_dir = False, dirname = ''/r'', tree = regular_file ''d3''\<rparr>,
      \<lparr>canonical = ''/r/e'', is_dir = True, dirname = ''/r'', tree = directory []\<rparr>,
      \<lparr>canonical = ''/r/b'', is_dir = False, dirname = ''/r'', tree = unreadable_file\<rparr>]
     = Some (EXIT_FAILURE, [''/r/c''])"
proof -
  let ?env_c = "''SIG1'' @ CHR ''A'' # CHR 0x00 # ''/r/c'' @ CHR 0x00 # ''d3''"
  let ?b = "\<lparr>canonical = ''/r/b'', is_dir = False, dirname = ''/r'', tree = unreadable_file\<rparr>"
  let ?c = "\<lparr>canonical = ''/r/c'', is_dir = False, dirname = ''/r'', tree = regular_file ''d3''\<rparr>"
  let ?a' = "\<lparr>canonical = ''/r/a'', is_dir = False, dirname = ''/r'', tree = regular_file ''d1''\<rparr>"
  let ?c' = "\<lparr>canonical = ''/r/c'', is_dir = False, dirname = ''/r'', tree = signed_file ''d3'' ?env_c\<rparr>"
  have p: "has_path_prefix ''/r/a'' ''/r''" "has_path_prefix ''/r/c'' ''/r''"
    by (simp_all add: has_path_prefix.simps cur_def)
  have sc: "validate demo_env ''/r/c'' ''/r'' (signed_file ''d3'' ?env_c) = (True, [''/r/c''])"
    using demo_validate_signed [OF p(2), of "''d3''"] by (simp add: cstr_def)
  note leaves = demo_sign_regular [OF p(1)] demo_sign_regular [OF p(2)] demo_sign_unreadable
    demo_validate_unsigned sc [simplified]
  have o: "opt_path_relative demo_env = None" by (simp add: demo_env_def)
  note T = walk_aggregates [where env = demo_env]
  have 1: "sign demo_env ''/r'' ''/r''
     (directory [(''a'', regular_file ''d1''), (''b'', unreadable_file),
                 (''a.sig'', regular_file ''s''), (''c'', regular_file ''d3'')])
     = (False, [''/r'', ''/r/a'', ''/r/b'', ''/r/c''])"
    unfolding directory_def
    by (subst T [THEN conjunct1, THEN mp, OF S_IFMT_masks(3), THEN conjunct1])
      (simp add: visited_children_def g_str_has_suffix_def g_build_filename_def leaves)
  have 2: "validate demo_env ''/r'' ''/r''
     (directory [(''a'', regular_file ''d1''), (''a.sig'', regular_file ''s''),
                 (''c'', signed_file ''d3'' ?env_c)])
     = (False, [''/r'', ''/r/a'', ''/r/c''])"
    unfolding directory_def
    by (subst T [THEN conjunct1, THEN mp, OF S_IFMT_masks(3), THEN conjunct2])
      (simp add: visited_children_def g_str_has_suffix_def g_build_filename_def leaves)
  have 3: "cmd_sign demo_env [?b, ?c] = Some (EXIT_FAILURE, [''/r/b'', ''/r/c''])"
    using T [where argv = "[?b, ?c]", THEN conjunct2, THEN mp, THEN conjunct1]
    by (auto simp: relative_root_def o leaves)
  have 4: "cmd_validate demo_env [?a', ?c'] = Some (EXIT_FAILURE, [''/r/a'', ''/r/c''])"
    using T [where argv = "[?a', ?c']", THEN conjunct2, THEN mp, THEN conjunct2]
    by (auto simp: relative_root_def o leaves)
  let ?e = "\<lparr>canonical = ''/r/e'', is_dir = True, dirname = ''/r'', tree = directory []\<rparr>"
  have o': "opt_path_relative (demo_env \<lparr>opt_recursive := False\<rparr>) = None"
    "\<not> opt_recursive (demo_env \<lparr>opt_recursive := False\<rparr>)"
    by (simp_all add: demo_env_def)
  have 5: "cmd_sign (demo_env \<lparr>opt_recursive := False\<rparr>) [?c, ?e, ?b]
      = Some (EXIT_FAILURE, [''/r/c''])"
    using walk_aggregates [where env = "demo_env \<lparr>opt_recursive := False\<rparr>"
        and argv = "[?c, ?e, ?b]", THEN conjunct2, THEN mp, THEN conjunct1]
    by (auto simp: relative_root_def o' demo_sign_regular_no_recursion [OF p(2)])
  from 1 2 3 4 5 show ?thesis by simp
qed

text \<open>
  Claim C4 as it was stated fails on a run without the recursive option whose first
  argument is a link to a directory: \<open>g_file_test\<close> follows the link, the run returns
  failure at once, and neither that leaf nor the file after it is walked, although the
  walk of each of them succeeds.
\<close>

theorem walk_aggregates_counterexample:
  "cmd_sign (demo_env \<lparr>opt_recursive := False\<rparr>)
     [\<lparr>canonical = ''/t/l'', is_dir = True, dirname = ''/t'', tree = symlink_to ''d''\<rparr>,
      \<lparr>canonical = ''/t/f'', is_dir = False, dirname = ''/t'', tree = regular_file ''x''\<rparr>]
     = Some (EXIT_FAILURE, [])
   \<and> sign (demo_env \<lparr>opt_recursive := False\<rparr>) ''/t/l'' ''/t/l'' (symlink_to ''d'')
     = (True, [''/t/l''])
   \<and> sign (demo_env \<lparr>opt_recursive := False\<rparr>) ''/t/f'' ''/t'' (regular_file ''x'')
     = (True, [''/t/f''])"
proof -
  have p: "has_path_prefix ''/t/l'' ''/t/l''" "has_path_prefix ''/t/f'' ''/t''"
    by (simp_all add: has_path_prefix.simps cur_def)
  have "cmd_sign (demo_env \<lparr>opt_recursive := False\<rparr>)
     [\<lparr>canonical = ''/t/l'', is_dir = True, dirname = ''/t'', tree = symlink_to ''d''\<rparr>,
      \<lparr>canonical = ''/t/f'', is_dir = False, dirname = ''/t'', tree = regular_file ''x''\<rparr>]
     = Some (EXIT_FAILURE, [])"
    by (simp add: cmd_sign_def)
  with demo_sign_symlink_no_recursion [OF p(1), of "''d''"]
    demo_sign_regular_no_recursion [OF p(2), of "''x''"]
  show ?thesis by simp
qed

lemma sign_missing_directory:
  assumes "st_mode AND S_IFMT = S_IFDIR"
  shows "sign env path relative_to (Node (Some st_mode) leaf (Some e) children)
           = (e = G_FILE_ERROR_NOENT, [path])"
  using assms by (simp add: S_IF_distinct)

lemma validate_missing_directory:
  assumes "st_mode AND S_IFMT = S_IFDIR"
  shows "validate env path relative_to (Node (Some st_mode) leaf (Some e) children)
           = (e = G_FILE_ERROR_NOENT, [path])"
  using assms by (simp add: S_IF_distinct)

text \<open>
  Claim C8, as amended. A directory that is found missing when it is opened
  (\<open>lstat\<close> saw a directory, \<open>g_dir_open\<close> fails with \<open>G_FILE_ERROR_NOENT\<close>) is
  success wherever the walk meets it, at the root and at any entry reached by
  recursion alike, so a directory whose only entry is such a directory is success too;
  a directory that fails to open with any other error is a failure of that entry.
\<close>

theorem missing_directory_tolerated:
  "st_mode AND S_IFMT = S_IFDIR \<longrightarrow>
     sign env path relative_to (Node (Some st_mode) leaf (Some G_FILE_ERROR_NOENT) children)
       = (True, [path])
     \<and> validate env path relative_to (Node (Some st_mode) leaf (Some G_FILE_ERROR_NOENT) children)
       = (True, [path])
     \<and> (e \<noteq> G_FILE_ERROR_NOENT \<longrightarrow>
          sign env path relative_to (Node (Some st_mode) leaf (Some e) children) = (False, [path])
          \<and> validate env path relative_to (Node (Some st_mode) leaf (Some e) children)
             = (False, [path]))
     \<and> (\<not> g_str_has_suffix child ''.sig'' \<longrightarrow>
          sign env path relative_to
              (Node (Some st_mode) leaf None
                 [(child, Node (Some st_mode) leaf' (Some G_FILE_ERROR_NOENT) children)])
            = (True, [path, g_build_filename path child])
          \<and> validate env path relative_to
              (Node (Some st_mode) leaf None
                 [(child, Node (Some st_mode) leaf' (Some G_FILE_ERROR_NOENT) children)])
            = (True, [path, g_build_filename path child]))"
proof
  assume d: "st_mode AND S_IFMT = S_IFDIR"
  note gone = sign_missing_directory [OF d] validate_missing_directory [OF d]
  show "sign env path relative_to (Node (Some st_mode) leaf (Some G_FILE_ERROR_NOENT) children)
       = (True, [path])
     \<and> validate env path relative_to (Node (Some st_mode) leaf (Some G_FILE_ERROR_NOENT) children)
       = (True, [path])
     \<and> (e \<noteq> G_FILE_ERROR_NOENT \<longrightarrow>
          sign env path relative_to (Node (Some st_mode) leaf (Some e) children) = (False, [path])
          \<and> validate env path relative_to (Node (Some st_mode) leaf (Some e) children)
             = (False, [path]))
     \<and> (\<not> g_str_has_suffix child ''.sig'' \<longrightarrow>
          sign env path relative_to
              (Node (Some st_mode) leaf None
                 [(child, Node (Some st_mode) leaf' (Some G_FILE_ERROR_NOENT) children)])
            = (True, [path, g_build_filename path child])
          \<and> validate env path relative_to
              (Node (Some st_mode) leaf None
                 [(child, Node (Some st_mode) leaf' (Some G_FILE_ERROR_NOENT) children)])
            = (True, [path, g_build_filename path child]))"
    unfolding sign_directory [OF d] validate_directory [OF d] gone
    by (simp add: visited_children_def gone del: sign.simps validate.simps)
qed

theorem missing_directory_tolerated_witness:
  "sign demo_env ''/r/sub'' ''/r'' vanished_directory = (True, [''/r/sub''])
   \<and> validate demo_env ''/r/sub'' ''/r'' vanished_directory = (True, [''/r/sub''])
   \<and> sign demo_env ''/r/sub'' ''/r''
        (Node (Some S_IFDIR) (demo_io (Inl G_FILE_ERROR_ISDIR)) (Some (G_FILE_ERROR_errno 13)) [])
       = (False, [''/r/sub''])
   \<and> validate demo_env ''/r'' ''/r''
        (Node (Some S_IFDIR) (demo_io (Inl G_FILE_ERROR_ISDIR)) None [(''sub'', vanished_directory)])
       = (True, [''/r'', ''/r/sub''])"
proof -
  note T = missing_directory_tolerated [where env = demo_env and st_mode = S_IFDIR,
      THEN mp, OF S_IFMT_masks(3)]
  have 1: "sign demo_env ''/r/sub'' ''/r'' vanished_directory = (True, [''/r/sub''])"
    unfolding vanished_directory_def by (rule T [THEN conjunct1])
  have 2: "validate demo_env ''/r/sub'' ''/r'' vanished_directory = (True, [''/r/sub''])"
    unfolding vanished_directory_def by (rule T [THEN conjunct2, THEN conjunct1])
  have 3: "sign demo_env ''/r/sub'' ''/r''
        (Node (Some S_IFDIR) (demo_io (Inl G_FILE_ERROR_ISDIR)) (Some (G_FILE_ERROR_errno 13)) [])
       = (False, [''/r/sub''])"
    by (rule T [THEN conjunct2, THEN conjunct2, THEN conjunct1, THEN mp, THEN conjunct1]) simp
  have "validate demo_env ''/r'' ''/r''
        (Node (Some S_IFDIR) (demo_io (Inl G_FILE_ERROR_ISDIR)) None [(''sub'', vanished_directory)])
       = (True, [''/r'', g_build_filename ''/r'' ''sub''])"
    unfolding vanished_directory_def
    by (rule T [THEN conjunct2, THEN conjunct2, THEN conjunct2, THEN mp, THEN conjunct2])
      (simp add: g_str_has_suffix_def)
  then have 4: "validate demo_env ''/r'' ''/r''
        (Node (Some S_IFDIR) (demo_io (Inl G_FILE_ERROR_ISDIR)) None [(''sub'', vanished_directory)])
       = (True, [''/r'', ''/r/sub''])"
    by (simp add: g_build_filename_def)
  from 1 2 3 4 show ?thesis by simp
qed

text \<open>
  Claim C8 as it was stated fails on a subdirectory that is gone when the walk opens
  it: the entry is a success, and so is the directory that holds it.
\<close>

theorem missing_directory_tolerated_counterexample:
  "sign demo_env ''/r'' ''/r'' (directory [(''sub'', vanished_directory)])
     = (True, [''/r'', ''/r/sub''])
   \<and> sign demo_env ''/r/sub'' ''/r'' vanished_directory = (True, [''/r/sub''])
   \<and> validate demo_env ''/r'' ''/r'' (directory [(''sub'', vanished_directory)])
     = (True, [''/r'', ''/r/sub''])
   \<and> validate demo_env ''/r/sub'' ''/r'' vanished_directory = (True, [''/r/sub''])"
  by (simp add: directory_def vanished_directory_def S_IFMT_masks S_IF_distinct
      g_str_has_suffix_def g_build_filename_def)


lemma g_str_has_suffix_iff: "g_str_has_suffix str sfx \<longleftrightarrow> suffix sfx str"
proof
  assume "g_str_has_suffix str sfx"
  then have "drop (length str - length sfx) str = sfx"
    by (simp add: g_str_has_suffix_def split: if_splits)
  then show "suffix sfx str" by (metis suffix_drop)
next
  assume "suffix sfx str"
  then obtain zs where "str = zs @ sfx" by (auto simp: suffix_def)
  then show "g_str_has_suffix str sfx" by (simp add: g_str_has_suffix_def)
qed

lemma child_path_not_sig:
  assumes "\<not> g_str_has_suffix child ''.sig''"
  shows "\<not> g_str_has_suffix (g_build_filename path child) ''.sig''"
proof
  let ?c = "dropWhile (\<lambda>c. c = CHR ''/'') child"
  let ?p = "rev (dropWhile (\<lambda>c. c = CHR ''/'') (rev path))"
  assume "g_str_has_suffix (g_build_filename path child) ''.sig''"
  then have "suffix ''.sig'' (?p @ CHR ''/'' # ?c)"
    by (simp add: g_str_has_suffix_iff g_build_filename_def)
  then have "suffix ''.sig'' (CHR ''/'' # ?c) \<or> (\<exists>xs. ''.sig'' = xs @ CHR ''/'' # ?c)"
    by (auto simp: suffix_append)
  moreover have "''.sig'' \<noteq> xs @ CHR ''/'' # ?c" for xs
  proof
    assume "''.sig'' = xs @ CHR ''/'' # ?c"
    then have "CHR ''/'' \<in> set ''.sig''" by (metis in_set_conv_decomp)
    then show False by simp
  qed
  ultimately have "suffix ''.sig'' ?c" by (auto simp: suffix_Cons)
  then have "suffix ''.sig'' child"
    using suffix_dropWhile [of "\<lambda>c. c = CHR ''/''" child] by (rule suffix_order.trans)
  with assms show False by (simp add: g_str_has_suffix_iff)
qed

lemma sign_visited_cases:
  "snd (sign env path relative_to (Node st leaf dir children)) = [path]
   \<or> snd (sign env path relative_to (Node st leaf dir children))
      = path # concat (map (\<lambda>(child, n). snd (sign env (g_build_filename path child) relative_to n))
                        (visited_children children))"
  by (cases st; cases dir) (auto simp: Let_def sign_children_eq)

lemma validate_visited_cases:
  "snd (validate env path relative_to (Node st leaf dir children)) = [path]
   \<or> snd (validate env path relative_to (Node st leaf dir children))
      = path # concat (map (\<lambda>(child, n). snd (validate env (g_build_filename path child) relative_to n))
                        (visited_children children))"
  by (cases st; cases dir) (auto simp: Let_def validate_children_eq)

lemma sign_visited_not_sig:
  "p \<in> set (snd (sign env path relative_to node)) \<Longrightarrow> p = path \<or> \<not> g_str_has_suffix p ''.sig''"
proof (induction node arbitrary: path p)
  case (Node st leaf dir children)
  from sign_visited_cases [of env path relative_to st leaf dir children] Node.prems
  consider "p = path"
    | child n where "(child, n) \<in> set (visited_children children)"
        "p \<in> set (snd (sign env (g_build_filename path child) relative_to n))"
    by auto
  then show ?case
  proof cases
    case 1
    then show ?thesis by simp
  next
    case 2
    from 2(1) have in_children: "(child, n) \<in> set children"
      and keep: "\<not> g_str_has_suffix child ''.sig''"
      by (auto simp: visited_children_def)
    from in_children have "n \<in> Basic_BNFs.snds (child, n)" by simp
    from Node.IH [OF in_children this 2(2)] child_path_not_sig [OF keep, of path]
    show ?thesis by auto
  qed
qed

lemma validate_visited_not_sig:
  "p \<in> set (snd (validate env path relative_to node)) \<Longrightarrow> p = path \<or> \<not> g_str_has_suffix p ''.sig''"
proof (induction node arbitrary: path p)
  case (Node st leaf dir children)
  from validate_visited_cases [of env path relative_to st leaf dir children] Node.prems
  consider "p = path"
    | child n where "(child, n) \<in> set (visited_children children)"
        "p \<in> set (snd (validate env (g_build_filename path child) relative_to n))"
    by auto
  then show ?case
  proof cases
    case 1
    then show ?thesis by simp
  next
    case 2
    from 2(1) have in_children: "(child, n) \<in> set children"
      and keep: "\<not> g_str_has_suffix child ''.sig''"
      by (auto simp: visited_children_def)
    from in_children have "n \<in> Basic_BNFs.snds (child, n)" by simp
    from Node.IH [OF in_children this 2(2)] child_path_not_sig [OF keep, of path]
    show ?thesis by auto
  qed
qed

lemma cmd_sign_loop_not_sig:
  "p \<in> set (snd (cmd_sign_loop env argv res)) \<Longrightarrow>
     p \<in> canonical ` set argv \<or> \<not> g_str_has_suffix p ''.sig''"
proof (induction argv arbitrary: res)
  case Nil
  then show ?case by simp
next
  case (Cons a argv)
  from Cons.prems show ?case
    unfolding cmd_sign_loop_Cons
    using Cons.IH sign_visited_not_sig [of p env "canonical a" "relative_root env a" "tree a"]
    by (auto split: if_splits)
qed

lemma cmd_validate_loop_not_sig:
  "p \<in> set (snd (cmd_validate_loop env argv res)) \<Longrightarrow>
     p \<in> canonical ` set argv \<or> \<not> g_str_has_suffix p ''.sig''"
proof (induction argv arbitrary: res)
  case Nil
  then show ?case by simp
next
  case (Cons a argv)
  from Cons.prems show ?case
    unfolding cmd_validate_loop_Cons
    using Cons.IH validate_visited_not_sig [of p env "canonical a" "relative_root env a" "tree a"]
    by (auto split: if_splits)
qed


text \<open>
  Claim C9, as amended. The enumeration of a directory skips every name that ends in
  \<open>.sig\<close>: the walk does not call \<open>sign\<close> or \<open>validate\<close> for it. So of all paths a
  walk visits, only its root can end in \<open>.sig\<close>, and of all paths a run visits, only
  its arguments can: a path reached through a directory is never a signature file. An
  argument of the run is walked whatever its name.
\<close>

theorem signature_files_skipped:
  "(\<forall>p \<in> set (snd (sign env path relative_to node)). p = path \<or> \<not> g_str_has_suffix p ''.sig'')
   \<and> (\<forall>p \<in> set (snd (validate env path relative_to node)).
         p = path \<or> \<not> g_str_has_suffix p ''.sig'')
   \<and> (g_str_has_suffix child ''.sig'' \<longrightarrow>
         sign_children env path relative_to ((child, n) # rest) success
           = sign_children env path relative_to rest success
         \<and> validate_children env path relative_to ((child, n) # rest) success
           = validate_children env path relative_to rest success)
   \<and> (\<forall>status visited. cmd_sign env argv = Some (status, visited) \<longrightarrow>
         (\<forall>p \<in> set visited. p \<in> canonical ` set argv \<or> \<not> g_str_has_suffix p ''.sig''))
   \<and> (\<forall>status visited. cmd_validate env argv = Some (status, visited) \<longrightarrow>
         (\<forall>p \<in> set visited. p \<in> canonical ` set argv \<or> \<not> g_str_has_suffix p ''.sig''))"
proof (intro conjI ballI allI impI)
  fix p assume "p \<in> set (snd (sign env path relative_to node))"
  then show "p = path \<or> \<not> g_str_has_suffix p ''.sig''" by (rule sign_visited_not_sig)
next
  fix p assume "p \<in> set (snd (validate env path relative_to node))"
  then show "p = path \<or> \<not> g_str_has_suffix p ''.sig''" by (rule validate_visited_not_sig)
next
  assume "g_str_has_suffix child ''.sig''"
  then show "sign_children env path relative_to ((child, n) # rest) success
      = sign_children env path relative_to rest success" by simp
next
  assume "g_str_has_suffix child ''.sig''"
  then show "validate_children env path relative_to ((child, n) # rest) success
      = validate_children env path relative_to rest success" by simp
next
  fix status visited p
  assume "cmd_sign env argv = Some (status, visited)" and "p \<in> set visited"
  then have "p \<in> set (snd (cmd_sign_loop env argv True))"
    by (auto simp: cmd_sign_def split: if_splits)
  then show "p \<in> canonical ` set argv \<or> \<not> g_str_has_suffix p ''.sig''"
    by (rule cmd_sign_loop_not_sig)
next
  fix status visited p
  assume "cmd_validate env argv = Some (status, visited)" and "p \<in> set visited"
  then have "p \<in> set (snd (cmd_validate_loop env argv True))"
    by (auto simp: cmd_validate_def split: if_splits)
  then show "p \<in> canonical ` set argv \<or> \<not> g_str_has_suffix p ''.sig''"
    by (rule cmd_validate_loop_not_sig)
qed

theorem signature_files_skipped_witness:
  "sign demo_env ''/r'' ''/r'' (directory [(''a.sig'', regular_file ''s''), (''a'', regular_file ''d'')])
     = (True, [''/r'', ''/r/a''])
   \<and> \<not> g_str_has_suffix ''/r/a'' ''.sig''
   \<and> g_str_has_suffix ''a.sig'' ''.sig''
   \<and> sign_children demo_env ''/r'' ''/r'' [(''a.sig'', regular_file ''s''), (''a'', regular_file ''d'')] True
     = sign_children demo_env ''/r'' ''/r'' [(''a'', regular_file ''d'')] True
   \<and> cmd_validate demo_env
        [\<lparr>canonical = ''/r'', is_dir = True, dirname = ''/'',
          tree = directory [(''a.sig'', regular_file ''s''), (''a'', regular_file ''d'')]\<rparr>]
     = Some (EXIT_FAILURE, [''/r'', ''/r/a''])"
proof -
  let ?tree = "directory [(''a.sig'', regular_file ''s''), (''a'', regular_file ''d'')]"
  let ?arg = "\<lparr>canonical = ''/r'', is_dir = True, dirname = ''/'', tree = ?tree\<rparr>"
  note T = signature_files_skipped [where env = demo_env and path = "''/r''"
      and relative_to = "''/r''"]
  have p: "has_path_prefix ''/r/a'' ''/r''" by (simp add: has_path_prefix.simps cur_def)
  have s: "g_str_has_suffix ''a.sig'' ''.sig''" by (simp add: g_str_has_suffix_def)
  have o: "opt_path_relative demo_env = None" "opt_recursive demo_env"
    by (simp_all add: demo_env_def)
  have w: "sign demo_env ''/r'' ''/r'' ?tree = (True, [''/r'', ''/r/a''])"
    unfolding directory_def
    by (subst sign_directory [OF S_IFMT_masks(3)])
      (simp add: visited_children_def g_str_has_suffix_def g_build_filename_def
         demo_sign_regular [OF p])
  have 1: "\<not> g_str_has_suffix ''/r/a'' ''.sig''"
    using T [where node = ?tree, THEN conjunct1, THEN bspec, of "''/r/a''"] w by simp
  have 2: "sign_children demo_env ''/r'' ''/r'' [(''a.sig'', regular_file ''s''), (''a'', regular_file ''d'')] True
     = sign_children demo_env ''/r'' ''/r'' [(''a'', regular_file ''d'')] True"
    by (rule T [THEN conjunct2, THEN conjunct2, THEN conjunct1, THEN mp, OF s, THEN conjunct1])
  have v: "cmd_validate demo_env [?arg] = Some (EXIT_FAILURE, [''/r'', ''/r/a''])"
    unfolding directory_def
    by (simp add: cmd_validate_def o validate_directory [OF S_IFMT_masks(3)] visited_children_def
        g_str_has_suffix_def g_build_filename_def demo_validate_unsigned
        EXIT_SUCCESS_def EXIT_FAILURE_def del: validate.simps)
  from T [where argv = "[?arg]", THEN conjunct2, THEN conjunct2, THEN conjunct2, THEN conjunct2,
      THEN spec, THEN spec, THEN mp, OF v] w 1 s 2 v
  show ?thesis by simp
qed

text \<open>
  Claim C9 as it was stated fails on an argument of the run whose name ends in
  \<open>.sig\<close>: a regular file given so is signed as a leaf, and a directory given so is
  walked.
\<close>

theorem signature_files_skipped_counterexample:
  "g_str_has_suffix ''/t/a.sig'' ''.sig''
   \<and> cmd_sign demo_env
        [\<lparr>canonical = ''/t/a.sig'', is_dir = False, dirname = ''/t'', tree = regular_file ''d''\<rparr>]
     = Some (EXIT_SUCCESS, [''/t/a.sig''])
   \<and> sign_leaf demo_env ''/t/a.sig'' ''/t'' S_IFREG (demo_io (Inr ''d''))
   \<and> g_str_has_suffix ''/t/d.sig'' ''.sig''
   \<and> cmd_sign demo_env
        [\<lparr>canonical = ''/t/d.sig'', is_dir = True, dirname = ''/t'',
          tree = directory [(''f'', regular_file ''d'')]\<rparr>]
     = Some (EXIT_SUCCESS, [''/t/d.sig'', ''/t/d.sig/f''])"
proof -
  have p: "has_path_prefix ''/t/a.sig'' ''/t''" "has_path_prefix ''/t/d.sig/f'' ''/t/d.sig''"
    by (simp_all add: has_path_prefix.simps cur_def)
  have o: "opt_path_relative demo_env = None" "opt_recursive demo_env"
    by (simp_all add: demo_env_def)
  have 1: "cmd_sign demo_env
        [\<lparr>canonical = ''/t/a.sig'', is_dir = False, dirname = ''/t'', tree = regular_file ''d''\<rparr>]
     = Some (EXIT_SUCCESS, [''/t/a.sig''])"
    by (simp add: cmd_sign_def o demo_sign_regular [OF p(1)])
  have 2: "sign_leaf demo_env ''/t/a.sig'' ''/t'' S_IFREG (demo_io (Inr ''d''))"
    using demo_sign_regular [OF p(1), of "''d''"] by (simp add: regular_file_def S_IFMT_masks)
  have 3: "cmd_sign demo_env
        [\<lparr>canonical = ''/t/d.sig'', is_dir = True, dirname = ''/t'',
          tree = directory [(''f'', regular_file ''d'')]\<rparr>]
     = Some (EXIT_SUCCESS, [''/t/d.sig'', ''/t/d.sig/f''])"
    unfolding directory_def
    by (simp add: cmd_sign_def o sign_directory [OF S_IFMT_masks(3)] visited_children_def
        g_str_has_suffix_def g_build_filename_def demo_sign_regular [OF p(2)] del: sign.simps)
  from 1 2 3 show ?thesis by (simp add: g_str_has_suffix_def)
qed

end
